theory Spec2Isabelle
  imports Main
begin

section \<open>Strings\<close>

text \<open>
  A JavaScript string is a sequence of code units. It is modelled as a \<open>string\<close>, a list
  of 8-bit characters: the code units 0 to 255. Every character that the source names
  (the markers, the tag names, the white space of the regular expressions) lies in that
  range.
\<close>

definition nl :: char where
  "nl = CHR 0x0A"

text \<open>
  The class \<open>\s\<close> of a regular expression and the white space of \<open>String.prototype.trim\<close>
  are the same set: TAB, LF, VT, FF, CR, SPACE and NO-BREAK SPACE among the code units below
  256.
\<close>

definition is_space :: "char \<Rightarrow> bool" where
  "is_space c \<longleftrightarrow>
     c = CHR 0x09 \<or> c = CHR 0x0A \<or> c = CHR 0x0B \<or> c = CHR 0x0C \<or> c = CHR 0x0D
     \<or> c = CHR 0x20 \<or> c = CHR 0xA0"

text \<open>The class \<open>[a-zA-Z0-9_:]\<close>.\<close>

definition is_name :: "char \<Rightarrow> bool" where
  "is_name c \<longleftrightarrow>
     (let n = (of_char c :: nat) in
        (97 \<le> n \<and> n \<le> 122) \<or> (65 \<le> n \<and> n \<le> 90) \<or> (48 \<le> n \<and> n \<le> 57)
        \<or> c = CHR ''_'' \<or> c = CHR '':'')"

text \<open>\<open>Array.prototype.join\<close> on an array of strings.\<close>

fun join :: "string \<Rightarrow> string list \<Rightarrow> string" where
  "join sep [] = []"
| "join sep [x] = x"
| "join sep (x # y # ys) = x @ sep @ join sep (y # ys)"

text \<open>\<open>String.prototype.trim\<close>: white space is removed at both ends.\<close>

definition trim :: "string \<Rightarrow> string" where
  "trim s = rev (dropWhile is_space (rev (dropWhile is_space s)))"

text \<open>
  A literal at the head of the text: the rest of the text behind the literal, when the text
  starts with it.
\<close>

fun strip_prefix :: "string \<Rightarrow> string \<Rightarrow> string option" where
  "strip_prefix [] s = Some s"
| "strip_prefix (p # ps) [] = None"
| "strip_prefix (p # ps) (c # cs) = (if p = c then strip_prefix ps cs else None)"

text \<open>
  The fragment \<open>[\s\S]*?LIT\<close>: the lazy star takes as few code units (of any kind, line
  breaks included) as possible, so the fragment ends behind the first occurrence of the
  literal. The result is the text behind that occurrence.
\<close>

fun skip_to :: "string \<Rightarrow> string \<Rightarrow> string option" where
  "skip_to lit [] = strip_prefix lit []"
| "skip_to lit (c # cs) =
     (case strip_prefix lit (c # cs) of
        Some r \<Rightarrow> Some r
      | None \<Rightarrow> skip_to lit cs)"

text \<open>\<open>String.prototype.includes\<close>.\<close>

definition includes_str :: "string \<Rightarrow> string \<Rightarrow> bool" where
  "includes_str s lit \<longleftrightarrow> skip_to lit s \<noteq> None"

text \<open>The fragment \<open>\n?\<close>: greedy, so a line feed at the head is always taken.\<close>

fun opt_nl :: "string \<Rightarrow> string" where
  "opt_nl [] = []"
| "opt_nl (c # cs) = (if c = nl then cs else c # cs)"

section \<open>Replacement with a global regular expression\<close>

text \<open>
  \<open>text.replace(/re/g, rep)\<close> scans the text from the left. At each position the
  expression is tried; where it matches, the match is replaced by \<open>rep\<close> and the scan goes
  on behind the match; where it does not, the code unit is kept and the scan moves one
  position on. None of the expressions of the source looks behind the position, so a
  match attempt is a function \<open>m\<close> of the text from the position on: \<open>m s = Some r\<close> when
  the expression matches a prefix of \<open>s\<close> and \<open>r\<close> is the text behind the match. Every
  expression of the source consumes at least one code unit; the test on the lengths is
  there so that the scan is total for any \<open>m\<close>.
\<close>

function replace_g :: "(string \<Rightarrow> string option) \<Rightarrow> string \<Rightarrow> string \<Rightarrow> string" where
  "replace_g m rep [] = []"
| "replace_g m rep (c # cs) =
     (case m (c # cs) of
        Some r \<Rightarrow>
          if length r \<le> length cs then rep @ replace_g m rep r
          else c # replace_g m rep cs
      | None \<Rightarrow> c # replace_g m rep cs)"
  by pat_completeness auto
termination
  by (relation "measure (\<lambda>(m, rep, s). length s)") auto

subsection \<open>The expressions of \<open>cleanMessageContent\<close>\<close>

text \<open>
  \<open>OPEN[\s\S]*?CLOSE\n?\<close> for two literals: used for
  \<open><environment_details>...</environment_details>\<close>,
  \<open>[Recalled Memories]...[/Recalled Memories]\<close> and
  \<open><<<<<<< SEARCH...>>>>>>> REPLACE\<close>.
\<close>

definition block_re :: "string \<Rightarrow> string \<Rightarrow> string \<Rightarrow> string option" where
  "block_re opn cls s =
     (case strip_prefix opn s of
        None \<Rightarrow> None
      | Some r \<Rightarrow>
          (case skip_to cls r of
             None \<Rightarrow> None
           | Some r' \<Rightarrow> Some (opt_nl r')))"

text \<open>
  The fragment \<open>(?:\s+[^>]*)?>\<close> behind a tag name. Either \<open>>\<close> follows at once, or
  a white space does and the attributes run up to the first \<open>>\<close> (white space is not
  \<open>>\<close>, so however \<open>\s+\<close> and \<open>[^>]*\<close> share the code units, the fragment ends at the
  first \<open>>\<close>); with no \<open>>\<close> in the rest of the text there is no match.
\<close>

fun attrs_close :: "string \<Rightarrow> string option" where
  "attrs_close [] = None"
| "attrs_close (c # cs) =
     (if c = CHR ''>'' then Some cs
      else if is_space c then
        (case dropWhile (\<lambda>x. x \<noteq> CHR ''>'') cs of
           [] \<Rightarrow> None
         | g # r \<Rightarrow> Some r)
      else None)"

text \<open>\<open><NAME(?:\s+[^>]*)?>\<close>: an opening tag of the given name.\<close>

definition open_tag_re :: "string \<Rightarrow> string \<Rightarrow> string option" where
  "open_tag_re name s =
     (case strip_prefix (CHR ''<'' # name) s of
        None \<Rightarrow> None
      | Some r \<Rightarrow> attrs_close r)"

text \<open>\<open></NAME>\<close>: a closing tag of the given name.\<close>

definition close_tag_re :: "string \<Rightarrow> string \<Rightarrow> string option" where
  "close_tag_re name s = strip_prefix (''</'' @ name @ ''>'') s"

text \<open>\<open><NAME(?:\s+[^>]*)?>[\s\S]*?<\/NAME>\n?\<close>: a whole element of the given name.\<close>

definition tool_block_re :: "string \<Rightarrow> string \<Rightarrow> string option" where
  "tool_block_re name s =
     (case open_tag_re name s of
        None \<Rightarrow> None
      | Some r \<Rightarrow>
          (case skip_to (''</'' @ name @ ''>'') r of
             None \<Rightarrow> None
           | Some r' \<Rightarrow> Some (opt_nl r')))"

text \<open>
  \<open><([a-zA-Z0-9_:]+)\s*\/>\<close>: a self-closing tag. The name is the longest run of name
  characters (a shorter one would be followed by a name character, not by white space or
  \<open>/\<close>), the white space likewise.
\<close>

fun self_closing_re :: "string \<Rightarrow> string option" where
  "self_closing_re [] = None"
| "self_closing_re (c # cs) =
     (if c = CHR ''<'' \<and> takeWhile is_name cs \<noteq> []
      then strip_prefix ''/>'' (dropWhile is_space (dropWhile is_name cs))
      else None)"

text \<open>
  \<open><[/!]?[a-zA-Z0-9_:]+[^>]*>\<close>: any tag. After \<open><\<close> and an optional \<open>/\<close> or \<open>!\<close>
  comes at least one name character, and the tag ends at the first \<open>>\<close>.
\<close>

fun tag_body :: "string \<Rightarrow> string option" where
  "tag_body [] = None"
| "tag_body (c # cs) =
     (if is_name c then
        (case dropWhile (\<lambda>x. x \<noteq> CHR ''>'') cs of
           [] \<Rightarrow> None
         | g # r \<Rightarrow> Some r)
      else None)"

fun any_tag_re :: "string \<Rightarrow> string option" where
  "any_tag_re [] = None"
| "any_tag_re (c # cs) =
     (if c = CHR ''<'' then
        (case cs of
           [] \<Rightarrow> None
         | d # ds \<Rightarrow> if d = CHR ''/'' \<or> d = CHR ''!'' then tag_body ds else tag_body cs)
      else None)"

text \<open>
  The fragment \<open>\s*\n\<close> of \<open>\n\s*\n\<close>: the greedy star takes the whole run of white
  space and gives code units back until a line feed follows, so the fragment ends behind
  the last line feed of the run. The recursive call is the longer attempt, tried first.
\<close>

fun spaces_nl :: "string \<Rightarrow> string option" where
  "spaces_nl [] = None"
| "spaces_nl (c # cs) =
     (if is_space c then
        (case spaces_nl cs of
           Some r \<Rightarrow> Some r
         | None \<Rightarrow> if c = nl then Some cs else None)
      else None)"

text \<open>\<open>\n\s*\n\<close>: a line feed, white space, a line feed.\<close>

fun blank_lines_re :: "string \<Rightarrow> string option" where
  "blank_lines_re [] = None"
| "blank_lines_re (c # cs) = (if c = nl then spaces_nl cs else None)"

subsection \<open>\<open>cleanMessageContent\<close>\<close>

definition blockToolTags :: "string list" where
  "blockToolTags = [''ask_followup_question'', ''attempt_completion'']"

definition toolTagsToRemove :: "string list" where
  "toolTagsToRemove =
     [''read_file'', ''apply_diff'', ''search_files'', ''list_files'', ''write_to_file'',
      ''insert_content'', ''search_and_replace'', ''execute_command'', ''use_mcp_tool'',
      ''access_mcp_resource'', ''switch_mode'', ''new_task'', ''fetch_instructions'',
      ''args'', ''file'', ''path'', ''content'', ''diff'', ''query'', ''mode'', ''message'',
      ''result'', ''command'', ''server_name'', ''tool_name'', ''arguments'', ''uri'',
      ''task'']"

text \<open>Steps 0 to 2: the three delimited blocks, removed with their content.\<close>

definition remove_environment :: "string \<Rightarrow> string" where
  "remove_environment t =
     replace_g (block_re ''<environment_details>'' ''</environment_details>'') [] t"

definition remove_recalled :: "string \<Rightarrow> string" where
  "remove_recalled t =
     replace_g (block_re ''[Recalled Memories]'' ''[/Recalled Memories]'') [] t"

definition remove_diff :: "string \<Rightarrow> string" where
  "remove_diff t = replace_g (block_re ''<<<<<<< SEARCH'' ''>>>>>>> REPLACE'') [] t"

text \<open>Step 3: the loop over \<open>blockToolTags\<close>.\<close>

definition remove_block_tools :: "string \<Rightarrow> string" where
  "remove_block_tools t = fold (\<lambda>tagName x. replace_g (tool_block_re tagName) [] x) blockToolTags t"

text \<open>Step 4: self-closing tags, then the loop over \<open>toolTagsToRemove\<close>, then any tag.\<close>

definition remove_self_closing :: "string \<Rightarrow> string" where
  "remove_self_closing t = replace_g self_closing_re [] t"

definition remove_tool_tags :: "string \<Rightarrow> string" where
  "remove_tool_tags t =
     fold (\<lambda>tagName x. replace_g (close_tag_re tagName) [] (replace_g (open_tag_re tagName) [] x))
       toolTagsToRemove t"

definition remove_any_tag :: "string \<Rightarrow> string" where
  "remove_any_tag t = replace_g any_tag_re [] t"

text \<open>The blank lines are consolidated: \<open>replace(/\n\s*\n/g, "\n\n")\<close>.\<close>

definition consolidate :: "string \<Rightarrow> string" where
  "consolidate t = replace_g blank_lines_re [nl, nl] t"

text \<open>The steps before the white space is treated, in the order of the source.\<close>

definition strip_markup :: "string \<Rightarrow> string" where
  "strip_markup t =
     remove_any_tag (remove_tool_tags (remove_self_closing (remove_block_tools
       (remove_diff (remove_recalled (remove_environment t))))))"

definition cleanMessageContent :: "string \<Rightarrow> string" where
  "cleanMessageContent text =
     (if text = [] then [] else trim (consolidate (strip_markup text)))"

section \<open>Messages and recalled items\<close>

text \<open>
  The content blocks of a message, as far as the integration looks at them: a text block, a
  tool result (whose content is missing, a string, or an array of text and image blocks),
  and the blocks it passes over (an image, a tool use), kept with their data.
\<close>

datatype inner_block = InnerText string | InnerImage string

datatype tool_result_content = NoContent | StringContent string | BlockContent "inner_block list"

datatype block =
    TextBlock string
  | ImageBlock string
  | ToolUseBlock string
  | ToolResultBlock tool_result_content

datatype role = User | Assistant

datatype message_content = Str string | Blocks "block list"

record message =
  role :: role
  content :: message_content
  ts :: "int option"

fun role_name :: "role \<Rightarrow> string" where
  "role_name User = ''user''"
| "role_name Assistant = ''assistant''"

fun is_text :: "block \<Rightarrow> bool" where
  "is_text (TextBlock t) = True"
| "is_text b = False"

fun block_text :: "block \<Rightarrow> string" where
  "block_text (TextBlock t) = t"
| "block_text b = []"

text \<open>
  The expression that the source writes out four times, with \<open>"\n\n"\<close> or \<open>" "\<close> as the
  separator: a string content as it is, an array content as
  \<open>.filter((block) => block.type === "text").map((block) => block.text).join(sep)\<close>.
\<close>

fun text_of_content :: "string \<Rightarrow> message_content \<Rightarrow> string" where
  "text_of_content sep (Str s) = s"
| "text_of_content sep (Blocks bs) = join sep (map block_text (filter is_text bs))"

text \<open>
  \<open>RecalledMemoryItem\<close>. The type \<open>'n\<close> stands for the numbers of JavaScript; the
  metadata, which the integration never reads, is left out. The field \<open>text\<close> is named
  \<open>itemText\<close> here.
\<close>

record 'n RecalledMemoryItem =
  itemText :: string
  sourceId :: string
  chunkIndex :: int
  score :: "'n option"
  distance :: "'n option"

text \<open>
  The array \<open>recalled_memories\<close> comes out of \<open>JSON.parse\<close> and is cast, unchecked, to
  \<open>RecalledMemoryItem[]\<close>. An element is an item of that interface, or it is another JSON
  value; of those the model has \<open>null\<close>.
\<close>

datatype 'n recalled = Typed "'n RecalledMemoryItem" | Null

section \<open>The hub\<close>

record McpServer =
  name :: string
  status :: string

datatype tool_args =
    EnrichContextMcpArgs string string nat
  | StoreExchangeMcpPayload string string string "int option" "int option"
  | LastChunkIndexArgs string

text \<open>\<open>callTool(serverName, toolName, args)\<close>.\<close>

datatype tool_call = CallTool string string tool_args

text \<open>
  What a call of \<open>callTool\<close> can give, as far as the integration tells the cases apart:
  \<^item> \<open>Throws\<close>: the call rejects;
  \<^item> \<open>NoTextContent\<close>: the response is missing, or has no content array, or a first block
    that is not a text block;
  \<^item> \<open>EmptyContent\<close>: the content array is empty;
  \<^item> \<open>InvalidJson\<close>: the first block is a text block and \<open>JSON.parse\<close> throws on its text;
  \<^item> \<open>JsonNull\<close>: the text parses to \<open>null\<close>;
  \<^item> \<open>Json ok mems\<close>: the text parses to another value; \<open>ok\<close> tells whether its
    \<open>success\<close> is truthy, \<open>mems\<close> is its \<open>recalled_memories\<close> when that is an array.
\<close>

datatype 'n tool_reply =
    Throws
  | NoTextContent
  | EmptyContent
  | InvalidJson
  | JsonNull
  | Json bool "'n recalled list option"

text \<open>
  The hub is outside the integration. Its state is a value of any type \<open>'w\<close>: the registry
  is read off it, and a call of a tool answers and changes it.
\<close>

record ('w, 'n) McpHub =
  getServers :: "'w \<Rightarrow> McpServer list"
  callTool :: "tool_call \<Rightarrow> 'w \<Rightarrow> 'n tool_reply \<times> 'w"

text \<open>
  The state that a method works on: the state of the hub, the calls of \<open>callTool\<close> made so
  far, and the cursor of the instance.
\<close>

record 'w sys =
  world :: 'w
  calls :: "tool_call list"
  lastStoredMessageIndex :: int

definition semanticMemoryServerName :: string where
  "semanticMemoryServerName = ''semantic-memory''"

definition isAvailable :: "('w, 'n) McpHub \<Rightarrow> 'w sys \<Rightarrow> bool" where
  "isAvailable hub s =
     (case find (\<lambda>server. name server = semanticMemoryServerName) (getServers hub (world s)) of
        None \<Rightarrow> False
      | Some semanticMemoryServer \<Rightarrow> status semanticMemoryServer = ''connected'')"

text \<open>\<open>await this.mcpHub.callTool(...)\<close>: the call is recorded and the hub answers.\<close>

definition invoke :: "('w, 'n) McpHub \<Rightarrow> tool_call \<Rightarrow> 'w sys \<Rightarrow> 'n tool_reply \<times> 'w sys" where
  "invoke hub c s =
     (case callTool hub c (world s) of
        (reply, w) \<Rightarrow> (reply, s\<lparr>world := w, calls := calls s @ [c]\<rparr>))"

section \<open>The memory client\<close>

text \<open>
  \<open>recentHistory.slice(-6)\<close>: the last six entries, or all of them when there are fewer.
\<close>

definition slice_last :: "nat \<Rightarrow> 'a list \<Rightarrow> 'a list" where
  "slice_last k xs = drop (length xs - k) xs"

text \<open>The line of one entry of the history: its text is cleaned, its role comes first.\<close>

definition context_line :: "message \<Rightarrow> string" where
  "context_line msg =
     role_name (role msg) @ '': '' @ cleanMessageContent (text_of_content '' '' (content msg))"

definition conversationContextString :: "message list \<Rightarrow> string" where
  "conversationContextString recentHistory =
     join [nl] (map context_line (slice_last 6 recentHistory))"

text \<open>
  \<open>enrichWithContextInternal\<close>. Whatever goes wrong inside the \<open>try\<close> (the call rejects,
  the text does not parse, a property of \<open>null\<close> is read) ends in \<open>return []\<close>, and so do a
  response of another shape and a payload that is not successful.
\<close>

definition enrichWithContextInternal ::
  "('w, 'n) McpHub \<Rightarrow> string \<Rightarrow> message list \<Rightarrow> 'w sys \<Rightarrow> 'n recalled list \<times> 'w sys" where
  "enrichWithContextInternal hub currentUserMessageContent recentHistory s =
     (if \<not> isAvailable hub s then ([], s)
      else
        (case invoke hub
                (CallTool semanticMemoryServerName ''enrich_context''
                   (EnrichContextMcpArgs currentUserMessageContent
                      (conversationContextString recentHistory) 3)) s of
           (reply, s') \<Rightarrow>
             (case reply of
                Json ok (Some mems) \<Rightarrow> if ok then (mems, s') else ([], s')
              | _ \<Rightarrow> ([], s'))))"

text \<open>
  \<open>storeExchangeInternal\<close> of \<open>src/integrations/SemanticMemoryIntegration.ts\<close>: both texts
  are cleaned. The response is only logged, and whatever goes wrong with it is caught.
\<close>

definition storeExchangeInternal ::
  "('w, 'n) McpHub \<Rightarrow> message \<Rightarrow> message \<Rightarrow> string \<Rightarrow> 'w sys \<Rightarrow> 'w sys" where
  "storeExchangeInternal hub userMessage assistantMessage taskId s =
     (if \<not> isAvailable hub s then s
      else
        (let userMessageText = text_of_content [nl, nl] (content userMessage);
             assistantResponseText = text_of_content [nl, nl] (content assistantMessage);
             cleanedUserMessage = cleanMessageContent userMessageText;
             cleanedAssistantResponse = cleanMessageContent assistantResponseText
         in if cleanedUserMessage = [] \<and> cleanedAssistantResponse = [] then s
            else snd (invoke hub
                        (CallTool semanticMemoryServerName ''store_exchange''
                           (StoreExchangeMcpPayload cleanedUserMessage cleanedAssistantResponse
                              taskId (ts userMessage) (ts assistantMessage))) s)))"

text \<open>
  The revision of the class that has \<open>syncHistory\<close> stores the user's text differently.
  The fragment \<open>([\s\S]*?)LIT\<close> with its group: the text before the first occurrence of
  the literal, and the text behind the occurrence.
\<close>

fun capture_to :: "string \<Rightarrow> string \<Rightarrow> (string \<times> string) option" where
  "capture_to lit [] = (case strip_prefix lit [] of Some r \<Rightarrow> Some ([], r) | None \<Rightarrow> None)"
| "capture_to lit (c # cs) =
     (case strip_prefix lit (c # cs) of
        Some r \<Rightarrow> Some ([], r)
      | None \<Rightarrow>
          (case capture_to lit cs of
             Some (inner, r) \<Rightarrow> Some (c # inner, r)
           | None \<Rightarrow> None))"

text \<open>
  \<open>userMessageText.match(/<user_message>([\s\S]*?)<\/user_message>/)\<close>: the group of the
  leftmost match, when there is one.
\<close>

fun user_message_match :: "string \<Rightarrow> string option" where
  "user_message_match [] = None"
| "user_message_match (c # cs) =
     (case strip_prefix ''<user_message>'' (c # cs) of
        Some r \<Rightarrow>
          (case capture_to ''</user_message>'' r of
             Some (inner, r') \<Rightarrow> Some inner
           | None \<Rightarrow> user_message_match cs)
      | None \<Rightarrow> user_message_match cs)"

text \<open>
  \<open>storeExchangeInternal\<close> of the revision with \<open>syncHistory\<close>: the user's text is the
  trimmed inside of \<open><user_message>\<close> when there is a non-empty one, and the text as it is
  otherwise; only the assistant's text is cleaned.
\<close>

definition storeExchangeInternal_sync ::
  "('w, 'n) McpHub \<Rightarrow> message \<Rightarrow> message \<Rightarrow> string \<Rightarrow> 'w sys \<Rightarrow> 'w sys" where
  "storeExchangeInternal_sync hub userMessage assistantMessage taskId s =
     (if \<not> isAvailable hub s then s
      else
        (let userMessageText = text_of_content [nl, nl] (content userMessage);
             assistantResponseText = text_of_content [nl, nl] (content assistantMessage);
             finalUserMessageToStore =
               (case user_message_match userMessageText of
                  Some inner \<Rightarrow> if inner \<noteq> [] then trim inner else userMessageText
                | None \<Rightarrow> userMessageText);
             cleanedAssistantResponse = cleanMessageContent assistantResponseText
         in if finalUserMessageToStore = [] \<and> cleanedAssistantResponse = [] then s
            else snd (invoke hub
                        (CallTool semanticMemoryServerName ''store_exchange''
                           (StoreExchangeMcpPayload finalUserMessageToStore cleanedAssistantResponse
                              taskId (ts userMessage) (ts assistantMessage))) s)))"

section \<open>The history synchronizer\<close>

text \<open>
  \<open>history[i]?.role\<close>: outside the array the entry is \<open>undefined\<close>, and so is its role.
\<close>

definition role_at :: "message list \<Rightarrow> int \<Rightarrow> role option" where
  "role_at history i =
     (if 0 \<le> i \<and> i < int (length history) then Some (role (history ! nat i)) else None)"

text \<open>
  The loop \<open>for (let i = localStartIndex; i < history.length; i++)\<close> of \<open>syncHistory\<close>.
  Where a user message is followed by an assistant message, the pair is stored, the cursor
  is set to \<open>i + 1\<close> and \<open>i\<close> moves on by two; elsewhere \<open>i\<close> moves on by one.
\<close>

function sync_loop ::
  "('w, 'n) McpHub \<Rightarrow> string \<Rightarrow> message list \<Rightarrow> int \<Rightarrow> 'w sys \<Rightarrow> 'w sys" where
  "sync_loop hub taskId history i s =
     (if i < int (length history) then
        (if role_at history i = Some User \<and> role_at history (i + 1) = Some Assistant then
           sync_loop hub taskId history (i + 2)
             ((storeExchangeInternal_sync hub (history ! nat i) (history ! nat (i + 1)) taskId s)
                \<lparr>lastStoredMessageIndex := i + 1\<rparr>)
         else sync_loop hub taskId history (i + 1) s)
      else s)"
  by pat_completeness auto
termination
  by (relation "measure (\<lambda>(hub, taskId, history, i, s). nat (int (length history) - i))") auto

text \<open>
  \<open>syncHistory\<close>. The whole body stands in a \<open>try\<close>: when the call of
  \<open>get_last_chunk_index\<close> rejects, when its text does not parse or parses to \<open>null\<close>, and
  when the content array is empty (the first block is read without a test on the length),
  the method ends there. In every other case the index that the server reports is only
  logged, and the loop starts behind the cursor.
\<close>

definition syncHistory ::
  "('w, 'n) McpHub \<Rightarrow> string \<Rightarrow> message list \<Rightarrow> 'w sys \<Rightarrow> 'w sys" where
  "syncHistory hub taskId history s =
     (if \<not> isAvailable hub s then s
      else
        (case invoke hub
                (CallTool semanticMemoryServerName ''get_last_chunk_index''
                   (LastChunkIndexArgs taskId)) s of
           (reply, s') \<Rightarrow>
             (case reply of
                Throws \<Rightarrow> s'
              | EmptyContent \<Rightarrow> s'
              | InvalidJson \<Rightarrow> s'
              | JsonNull \<Rightarrow> s'
              | _ \<Rightarrow>
                  (let localStartIndex = lastStoredMessageIndex s' + 1
                   in if localStartIndex \<ge> int (length history) then s'
                      else sync_loop hub taskId history localStartIndex s'))))"

subsection \<open>Calls that overlap\<close>

text \<open>
  \<open>syncHistory\<close> above is one call on its own, from its start to its end. An asynchronous
  call gives way at each \<open>await\<close>, and another call of the same instance can run in
  between: the constructor starts \<open>syncHistory\<close> without awaiting it, and the storage
  handler starts it again. Between two awaits a call of \<open>syncHistory\<close> stands at one of
  these points:
  \<^item> \<open>NotStarted\<close>: the method has not been entered;
  \<^item> \<open>AwaitingIndex reply\<close>: it waits at \<open>await this.mcpHub.callTool(...)\<close> for the answer
    of \<open>get_last_chunk_index\<close>, which will be \<open>reply\<close>;
  \<^item> \<open>AwaitingStore i\<close>: it waits at \<open>await this.storeExchangeInternal(...)\<close> in the
    iteration of the loop with the index \<open>i\<close>;
  \<^item> \<open>Finished\<close>: it has returned.
\<close>

datatype 'n sync_point = NotStarted | AwaitingIndex "'n tool_reply" | AwaitingStore int | Finished

text \<open>
  The loop from the index \<open>i\<close> to its next \<open>await\<close>: the positions that start no pair are
  passed over; at a pair \<open>storeExchangeInternal\<close> is entered, which makes its call, and the
  loop waits there; behind the last position the method returns.
\<close>

function scan_to_store ::
  "('w, 'n) McpHub \<Rightarrow> string \<Rightarrow> message list \<Rightarrow> int \<Rightarrow> 'w sys \<Rightarrow> 'n sync_point \<times> 'w sys" where
  "scan_to_store hub thisTaskId history i s =
     (if i < int (length history) then
        (if role_at history i = Some User \<and> role_at history (i + 1) = Some Assistant then
           (AwaitingStore i,
            storeExchangeInternal_sync hub (history ! nat i) (history ! nat (i + 1)) thisTaskId s)
         else scan_to_store hub thisTaskId history (i + 1) s)
      else (Finished, s))"
  by pat_completeness auto
termination
  by (relation "measure (\<lambda>(hub, thisTaskId, history, i, s). nat (int (length history) - i))") auto

text \<open>
  A call runs from its point to its next \<open>await\<close>. The cursor is read when the call goes
  on behind \<open>get_last_chunk_index\<close> (\<open>localStartIndex\<close>), and it is written when the call
  goes on behind the store: \<open>this.lastStoredMessageIndex = i + 1\<close>, with the \<open>i\<close> of the
  call, then \<open>i++\<close> twice.
\<close>

definition resume ::
  "('w, 'n) McpHub \<Rightarrow> string \<Rightarrow> message list \<Rightarrow> 'n sync_point \<Rightarrow> 'w sys
     \<Rightarrow> 'n sync_point \<times> 'w sys" where
  "resume hub thisTaskId history p s =
     (case p of
        NotStarted \<Rightarrow>
          if \<not> isAvailable hub s then (Finished, s)
          else
            (case invoke hub
                    (CallTool semanticMemoryServerName ''get_last_chunk_index''
                       (LastChunkIndexArgs thisTaskId)) s of
               (reply, s') \<Rightarrow> (AwaitingIndex reply, s'))
      | AwaitingIndex reply \<Rightarrow>
          (case reply of
             Throws \<Rightarrow> (Finished, s)
           | EmptyContent \<Rightarrow> (Finished, s)
           | InvalidJson \<Rightarrow> (Finished, s)
           | JsonNull \<Rightarrow> (Finished, s)
           | _ \<Rightarrow>
               (let localStartIndex = lastStoredMessageIndex s + 1
                in if localStartIndex \<ge> int (length history) then (Finished, s)
                   else scan_to_store hub thisTaskId history localStartIndex s))
      | AwaitingStore i \<Rightarrow>
          scan_to_store hub thisTaskId history (i + 2) (s\<lparr>lastStoredMessageIndex := i + 1\<rparr>)
      | Finished \<Rightarrow> (Finished, s))"

text \<open>
  The calls of one instance, each at its point, and the state they share. A schedule names,
  step by step, the call that runs next, up to its next \<open>await\<close>.
\<close>

definition resume_call ::
  "('w, 'n) McpHub \<Rightarrow> string \<Rightarrow> message list \<Rightarrow> nat \<Rightarrow> 'n sync_point list \<times> 'w sys
     \<Rightarrow> 'n sync_point list \<times> 'w sys" where
  "resume_call hub thisTaskId history k c =
     (if k < length (fst c) then
        (case resume hub thisTaskId history (fst c ! k) (snd c) of
           (p, s) \<Rightarrow> ((fst c)[k := p], s))
      else c)"

fun run_schedule ::
  "('w, 'n) McpHub \<Rightarrow> string \<Rightarrow> message list \<Rightarrow> nat list \<Rightarrow> 'n sync_point list \<times> 'w sys
     \<Rightarrow> 'n sync_point list \<times> 'w sys" where
  "run_schedule hub thisTaskId history [] c = c"
| "run_schedule hub thisTaskId history (k # schedule) c =
     run_schedule hub thisTaskId history schedule (resume_call hub thisTaskId history k c)"

text \<open>The cursor after each step of a schedule.\<close>

fun cursor_history ::
  "('w, 'n) McpHub \<Rightarrow> string \<Rightarrow> message list \<Rightarrow> nat list \<Rightarrow> 'n sync_point list \<times> 'w sys
     \<Rightarrow> int list" where
  "cursor_history hub thisTaskId history [] c = []"
| "cursor_history hub thisTaskId history (k # schedule) c =
     lastStoredMessageIndex (snd (resume_call hub thisTaskId history k c))
       # cursor_history hub thisTaskId history schedule (resume_call hub thisTaskId history k c)"

section \<open>The enrichment handler\<close>

record event_payload =
  taskId :: string

text \<open>
  A promise of \<open>payload.promises\<close> is modelled by the way it settles. The steps of the
  asynchronous functions are taken in their order in the code, one after the other.
\<close>

datatype settled = Fulfilled | Rejected

record UserMessageEnrichmentPayload = event_payload +
  userContent :: "block list"
  currentHistorySlice :: "message list"
  promises :: "settled list"

record AssistantResponseProcessedPayload = event_payload +
  userMessage :: message
  assistantMessage :: message

text \<open>The filter of stale blocks keeps a block unless it is a text block whose trimmed text
  starts with the marker.\<close>

fun keeps_block :: "block \<Rightarrow> bool" where
  "keeps_block (TextBlock t) = (strip_prefix ''[Recalled Memories]'' (trim t) = None)"
| "keeps_block b = True"

text \<open>What one block pushes on \<open>userQueryParts\<close>.\<close>

fun inner_parts :: "inner_block \<Rightarrow> string list" where
  "inner_parts (InnerText t) = [t]"
| "inner_parts (InnerImage d) = []"

fun query_parts :: "block \<Rightarrow> string list" where
  "query_parts (TextBlock t) = [t]"
| "query_parts (ToolResultBlock (StringContent c)) = [c]"
| "query_parts (ToolResultBlock (BlockContent inner)) = concat (map inner_parts inner)"
| "query_parts b = []"

text \<open>The decimal digits of a natural number, as a template literal writes \<open>index + 1\<close>.\<close>

function decimal :: "nat \<Rightarrow> string" where
  "decimal n = (if n < 10 then [''0123456789'' ! n]
                else decimal (n div 10) @ [''0123456789'' ! (n mod 10)])"
  by pat_completeness auto
termination
  by (relation "measure id") auto

text \<open>
  \<open>item.score?.toFixed(4) || "N/A"\<close>, with \<open>Number.prototype.toFixed(4)\<close> as a parameter.
\<close>

definition score_text :: "('n \<Rightarrow> string) \<Rightarrow> 'n option \<Rightarrow> string" where
  "score_text toFixed4 sc =
     (case sc of
        None \<Rightarrow> ''N/A''
      | Some x \<Rightarrow> if toFixed4 x = [] then ''N/A'' else toFixed4 x)"

definition format_memory :: "('n \<Rightarrow> string) \<Rightarrow> nat \<Rightarrow> 'n RecalledMemoryItem \<Rightarrow> string" where
  "format_memory toFixed4 index item =
     ''Memory '' @ decimal (index + 1) @ '' (Source: '' @ sourceId item @ '', Score: ''
       @ score_text toFixed4 (score item) @ ''):'' @ [nl] @ itemText item"

text \<open>
  The \<open>map\<close> over the recalled array, from the given index on. Reading \<open>sourceId\<close> of
  \<open>null\<close> raises a \<open>TypeError\<close>: the result is \<open>None\<close> then.
\<close>

fun format_from :: "('n \<Rightarrow> string) \<Rightarrow> nat \<Rightarrow> 'n recalled list \<Rightarrow> string list option" where
  "format_from toFixed4 index [] = Some []"
| "format_from toFixed4 index (Null # rest) = None"
| "format_from toFixed4 index (Typed item # rest) =
     (case format_from toFixed4 (index + 1) rest of
        None \<Rightarrow> None
      | Some lines \<Rightarrow> Some (format_memory toFixed4 index item # lines))"

definition formattedMemories :: "('n \<Rightarrow> string) \<Rightarrow> 'n recalled list \<Rightarrow> string option" where
  "formattedMemories toFixed4 recalledMemories =
     map_option (join ([nl] @ ''---'' @ [nl])) (format_from toFixed4 0 recalledMemories)"

definition recall_block_text :: "string \<Rightarrow> string" where
  "recall_block_text formatted =
     ''[Recalled Memories]'' @ [nl] @ formatted @ [nl] @ ''[/Recalled Memories]''"

text \<open>
  The asynchronous function \<open>enrichmentPromise\<close> of \<open>handleBeforeUserMessageEnrichment\<close>:
  how its promise settles, the \<open>userContent\<close> of the payload at the end, and the state.
\<close>

definition enrichmentPromise ::
  "('w, 'n) McpHub \<Rightarrow> ('n \<Rightarrow> string) \<Rightarrow> string \<Rightarrow> UserMessageEnrichmentPayload \<Rightarrow> 'w sys
     \<Rightarrow> settled \<times> block list \<times> 'w sys" where
  "enrichmentPromise hub toFixed4 thisTaskId payload s =
     (if taskId payload \<noteq> thisTaskId then (Fulfilled, userContent payload, s)
      else
        (let kept = filter keeps_block (userContent payload);
             userQueryParts = concat (map query_parts kept);
             rawUserQuery = join [nl, nl] userQueryParts;
             userQuery = cleanMessageContent rawUserQuery
         in if userQuery = [] then (Fulfilled, kept, s)
            else
              (case enrichWithContextInternal hub userQuery (currentHistorySlice payload) s of
                 (recalledMemories, s') \<Rightarrow>
                   if length recalledMemories > 0 then
                     (case formattedMemories toFixed4 recalledMemories of
                        None \<Rightarrow> (Rejected, kept, s')
                      | Some formatted \<Rightarrow>
                          (Fulfilled, TextBlock (recall_block_text formatted) # kept, s'))
                   else (Fulfilled, kept, s'))))"

definition handleBeforeUserMessageEnrichment ::
  "('w, 'n) McpHub \<Rightarrow> ('n \<Rightarrow> string) \<Rightarrow> string \<Rightarrow> UserMessageEnrichmentPayload \<Rightarrow> 'w sys
     \<Rightarrow> UserMessageEnrichmentPayload \<times> 'w sys" where
  "handleBeforeUserMessageEnrichment hub toFixed4 thisTaskId payload s =
     (case enrichmentPromise hub toFixed4 thisTaskId payload s of
        (outcome, content', s') \<Rightarrow>
          (payload\<lparr>userContent := content', promises := promises payload @ [outcome]\<rparr>, s'))"

section \<open>The storage handler\<close>

text \<open>\<open>handleAfterAssistantResponseProcessed\<close> of
  \<open>src/integrations/SemanticMemoryIntegration.ts\<close>.\<close>

definition handleAfterAssistantResponseProcessed ::
  "('w, 'n) McpHub \<Rightarrow> string \<Rightarrow> AssistantResponseProcessedPayload \<Rightarrow> 'w sys \<Rightarrow> 'w sys" where
  "handleAfterAssistantResponseProcessed hub thisTaskId payload s =
     (if taskId payload \<noteq> thisTaskId then s
      else storeExchangeInternal hub (userMessage payload) (assistantMessage payload)
             (taskId payload) s)"

text \<open>
  \<open>handleAfterAssistantResponseProcessed\<close> of the revision with \<open>syncHistory\<close>; the
  transcript is \<open>this.task.apiConversationHistory\<close>.
\<close>

definition handleAfterAssistantResponseProcessed_sync ::
  "('w, 'n) McpHub \<Rightarrow> string \<Rightarrow> message list \<Rightarrow> AssistantResponseProcessedPayload \<Rightarrow> 'w sys
     \<Rightarrow> 'w sys" where
  "handleAfterAssistantResponseProcessed_sync hub thisTaskId apiConversationHistory payload s =
     (if taskId payload \<noteq> thisTaskId then s
      else
        (let assistantMessageText =
               text_of_content [nl, nl] (content (assistantMessage payload))
         in if includes_str assistantMessageText ''<attempt_completion>''
            then syncHistory hub thisTaskId apiConversationHistory s
            else s))"

section \<open>The extraction rule in the words of the specification\<close>

text \<open>
  The text extraction rule of the specification (section 4.4), for comparison with the
  code: a string content is used as it is; of an array content, the text of every text
  block and, for every tool result, the text extracted in the same way from its nested
  content (a string, or an array of blocks) are concatenated in order with \<open>"\n\n"\<close>
  between them; the other blocks are ignored.
\<close>

fun spec_piece :: "block \<Rightarrow> string list" where
  "spec_piece (TextBlock t) = [t]"
| "spec_piece (ToolResultBlock (StringContent c)) = [c]"
| "spec_piece (ToolResultBlock (BlockContent inner)) =
     [join [nl, nl] (concat (map inner_parts inner))]"
| "spec_piece b = []"

fun spec_text_extraction :: "message_content \<Rightarrow> string" where
  "spec_text_extraction (Str s) = s"
| "spec_text_extraction (Blocks bs) = join [nl, nl] (concat (map spec_piece bs))"

text \<open>The conversation context in the words of the specification: the last six entries,
  one line \<open>{role}: {text}\<close> for each, the text extracted by the rule and sanitized.\<close>

definition spec_conversationContext :: "message list \<Rightarrow> string" where
  "spec_conversationContext recentHistory =
     join [nl]
       (map (\<lambda>msg. role_name (role msg) @ '': ''
                    @ cleanMessageContent (spec_text_extraction (content msg)))
          (slice_last 6 recentHistory))"

fun is_tool_result :: "block \<Rightarrow> bool" where
  "is_tool_result (ToolResultBlock c) = True"
| "is_tool_result b = False"

section \<open>Example values\<close>

text \<open>
  A hub for the examples: the registry is fixed, every call gets the same answer, and the
  state of the hub counts the calls.
\<close>

definition example_hub :: "McpServer list \<Rightarrow> nat tool_reply \<Rightarrow> (nat, nat) McpHub" where
  "example_hub servers reply =
     \<lparr>getServers = (\<lambda>w. servers), callTool = (\<lambda>c w. (reply, Suc w))\<rparr>"

definition connected_registry :: "McpServer list" where
  "connected_registry = [\<lparr>name = ''semantic-memory'', status = ''connected''\<rparr>]"

definition disconnected_registry :: "McpServer list" where
  "disconnected_registry =
     [\<lparr>name = ''other-server'', status = ''connected''\<rparr>,
      \<lparr>name = ''semantic-memory'', status = ''disconnected''\<rparr>]"

definition fresh :: "nat sys" where
  "fresh = \<lparr>world = 0, calls = [], lastStoredMessageIndex = - 1\<rparr>"

definition user_says :: "string \<Rightarrow> message" where
  "user_says t = \<lparr>role = User, content = Str t, ts = None\<rparr>"

definition assistant_says :: "string \<Rightarrow> message" where
  "assistant_says t = \<lparr>role = Assistant, content = Str t, ts = None\<rparr>"

text \<open>An index of the transcript that holds an assistant message right behind a user
  message.\<close>

definition assistant_after_user :: "message list \<Rightarrow> int \<Rightarrow> bool" where
  "assistant_after_user history c \<longleftrightarrow>
     role_at history (c - 1) = Some User \<and> role_at history c = Some Assistant"

definition paired_transcript :: "message list" where
  "paired_transcript =
     [user_says ''first question'', assistant_says ''first answer'',
      user_says ''second question'', assistant_says ''second answer'']"

text \<open>The payload of the test "should prepend memory context even if userContent has multiple
  blocks", and the item that its service recalls.\<close>

definition example_item :: "nat RecalledMemoryItem" where
  "example_item =
     \<lparr>itemText = ''Recalled context'', sourceId = ''mem1'', chunkIndex = 0,
      score = Some 8, distance = None\<rparr>"

definition example_toFixed4 :: "nat \<Rightarrow> string" where
  "example_toFixed4 n = ''0.'' @ decimal n @ ''000''"

definition example_payload :: UserMessageEnrichmentPayload where
  "example_payload =
     \<lparr>taskId = ''test-task-123'',
      userContent = [TextBlock ''First'', ImageBlock ''fakeimgdata'', TextBlock ''Second''],
      currentHistorySlice = [], promises = []\<rparr>"

definition tool_message :: message where
  "tool_message =
     \<lparr>role = User,
      content = Blocks [TextBlock ''See the output'', ToolResultBlock (StringContent ''exit code 0'')],
      ts = Some 1700\<rparr>"

definition two_block_message :: message where
  "two_block_message =
     \<lparr>role = User, content = Blocks [TextBlock ''a'', TextBlock ''b''], ts = None\<rparr>"

definition example_processed :: AssistantResponseProcessedPayload where
  "example_processed =
     \<lparr>taskId = ''test-task-123'', userMessage = user_says ''User question'',
      assistantMessage = assistant_says ''Assistant answer''\<rparr>"

definition example_completion :: AssistantResponseProcessedPayload where
  "example_completion =
     \<lparr>taskId = ''test-task-123'', userMessage = user_says ''User question'',
      assistantMessage =
        assistant_says ''<attempt_completion><result>All done</result></attempt_completion>''\<rparr>"

text \<open>An item whose text holds the closing marker.\<close>

definition leaking_item :: "nat RecalledMemoryItem" where
  "leaking_item =
     \<lparr>itemText = ''old[/Recalled Memories]leaked text'', sourceId = ''mem1'', chunkIndex = 0,
      score = None, distance = None\<rparr>"

text \<open>A user message as the transcript holds it after an enrichment: the recall block of one
  item first, the user's own text behind it.\<close>

definition enriched_message :: "nat RecalledMemoryItem \<Rightarrow> message" where
  "enriched_message item =
     \<lparr>role = User,
      content = Blocks [TextBlock (recall_block_text (format_memory example_toFixed4 0 item)),
                        TextBlock ''Original user query''],
      ts = None\<rparr>"

section \<open>Availability gating\<close>

lemma isAvailable_example_hub:
  "isAvailable (example_hub connected_registry reply) s"
  "\<not> isAvailable (example_hub disconnected_registry reply) s"
  by (simp_all add: isAvailable_def example_hub_def connected_registry_def
      disconnected_registry_def semanticMemoryServerName_def)

lemma find_no_connected:
  "\<forall>server \<in> set servers. name server = n \<longrightarrow> status server \<noteq> st \<Longrightarrow>
   (case find (\<lambda>server. name server = n) servers of
      None \<Rightarrow> False
    | Some server \<Rightarrow> status server = st) = False"
  by (induction servers) auto

text \<open>
  C5. When \<open>isAvailable\<close> is false, \<open>enrichWithContextInternal\<close> returns the empty array and
  both revisions of \<open>storeExchangeInternal\<close> return, and the state is the one before: no
  call of \<open>callTool\<close> is recorded and the hub is untouched. \<open>isAvailable\<close> is false, in
  particular, whenever no entry of the registry named \<open>semantic-memory\<close> has the status
  \<open>connected\<close>.
\<close>

theorem availability_gating:
  "(\<not> isAvailable hub s \<longrightarrow>
      enrichWithContextInternal hub query recentHistory s = ([], s)
      \<and> storeExchangeInternal hub um am tid s = s
      \<and> storeExchangeInternal_sync hub um am tid s = s)
   \<and> ((\<forall>server \<in> set (getServers hub (world s)).
          name server = semanticMemoryServerName \<longrightarrow> status server \<noteq> ''connected'')
        \<longrightarrow> \<not> isAvailable hub s)"
proof (intro conjI impI)
  assume "\<not> isAvailable hub s"
  then show "enrichWithContextInternal hub query recentHistory s = ([], s)"
    by (simp add: enrichWithContextInternal_def)
next
  assume "\<not> isAvailable hub s"
  then show "storeExchangeInternal hub um am tid s = s"
    by (simp add: storeExchangeInternal_def)
next
  assume "\<not> isAvailable hub s"
  then show "storeExchangeInternal_sync hub um am tid s = s"
    by (simp add: storeExchangeInternal_sync_def)
next
  assume "\<forall>server \<in> set (getServers hub (world s)).
            name server = semanticMemoryServerName \<longrightarrow> status server \<noteq> ''connected''"
  then show "\<not> isAvailable hub s"
    unfolding isAvailable_def by (simp add: find_no_connected)
qed

theorem availability_gating_witness:
  "\<not> isAvailable (example_hub disconnected_registry (Json True (Some []))) fresh
   \<and> enrichWithContextInternal (example_hub disconnected_registry (Json True (Some [])))
        ''Test query'' [] fresh = ([], fresh)
   \<and> storeExchangeInternal (example_hub disconnected_registry (Json True (Some [])))
        (user_says ''Test'') (assistant_says ''Response'') ''task123'' fresh = fresh
   \<and> calls fresh = []"
  using availability_gating [of "example_hub disconnected_registry (Json True (Some []))" fresh
      "''Test query''" "[]" "user_says ''Test''" "assistant_says ''Response''" "''task123''"]
  by (simp add: isAvailable_example_hub fresh_def)

section \<open>Task isolation\<close>

text \<open>
  C4. An event whose \<open>taskId\<close> is not the one of the owning task is ignored: the enrichment
  handler leaves \<open>userContent\<close> and the history slice as they are (its promise, which it
  pushes all the same, is fulfilled), both revisions of the storage handler return at once,
  and the state is the one before, so no call of \<open>callTool\<close> is made.
\<close>

theorem taskId_isolation:
  "(taskId payload \<noteq> thisTaskId \<longrightarrow>
      handleBeforeUserMessageEnrichment hub toFixed4 thisTaskId payload s
        = (payload\<lparr>promises := promises payload @ [Fulfilled]\<rparr>, s))
   \<and> (taskId processed \<noteq> thisTaskId \<longrightarrow>
      handleAfterAssistantResponseProcessed hub thisTaskId processed s = s
      \<and> handleAfterAssistantResponseProcessed_sync hub thisTaskId history processed s = s)"
  by (simp add: handleBeforeUserMessageEnrichment_def enrichmentPromise_def
      handleAfterAssistantResponseProcessed_def handleAfterAssistantResponseProcessed_sync_def)

theorem taskId_isolation_witness:
  "handleBeforeUserMessageEnrichment (example_hub connected_registry (Json True (Some [])))
     (\<lambda>n. ''0.8000'') ''test-task-123''
     \<lparr>taskId = ''different-task-id'', userContent = [TextBlock ''Original user query''],
      currentHistorySlice = [], promises = []\<rparr> fresh
   = (\<lparr>taskId = ''different-task-id'', userContent = [TextBlock ''Original user query''],
       currentHistorySlice = [], promises = [Fulfilled]\<rparr>, fresh)
   \<and> handleAfterAssistantResponseProcessed (example_hub connected_registry (Json True (Some [])))
       ''test-task-123''
       \<lparr>taskId = ''different-task-id'', userMessage = user_says ''User question'',
        assistantMessage = assistant_says ''Assistant answer''\<rparr> fresh = fresh"
  using taskId_isolation [of
      "\<lparr>taskId = ''different-task-id'', userContent = [TextBlock ''Original user query''],
        currentHistorySlice = [], promises = []\<rparr>"
      "''test-task-123''" "example_hub connected_registry (Json True (Some []))"
      "\<lambda>n. ''0.8000''" fresh
      "\<lparr>taskId = ''different-task-id'', userMessage = user_says ''User question'',
        assistantMessage = assistant_says ''Assistant answer''\<rparr>" "[]"]
  by simp

section \<open>The cursor of the history synchronizer\<close>

lemma invoke_cursor:
  "invoke hub c s = (reply, s') \<Longrightarrow> lastStoredMessageIndex s' = lastStoredMessageIndex s"
  by (auto simp: invoke_def split: prod.splits)

lemma store_sync_cursor:
  "lastStoredMessageIndex (storeExchangeInternal_sync hub um am tid s) = lastStoredMessageIndex s"
  by (auto simp: storeExchangeInternal_sync_def Let_def invoke_def split: prod.splits)

declare sync_loop.simps [simp del]

lemma sync_loop_cursor:
  "lastStoredMessageIndex s < i \<Longrightarrow>
   lastStoredMessageIndex (sync_loop hub tid h i s) = lastStoredMessageIndex s
   \<or> (i < lastStoredMessageIndex (sync_loop hub tid h i s)
       \<and> assistant_after_user h (lastStoredMessageIndex (sync_loop hub tid h i s)))"
proof (induction hub tid h i s rule: sync_loop.induct)
  case (1 hub tid h i s)
  show ?case
  proof (cases "i < int (length h)")
    case False
    then show ?thesis by (subst sync_loop.simps) simp
  next
    case inside: True
    show ?thesis
    proof (cases "role_at h i = Some User \<and> role_at h (i + 1) = Some Assistant")
      case False
      with inside have eq: "sync_loop hub tid h i s = sync_loop hub tid h (i + 1) s"
        by (subst sync_loop.simps) auto
      from "1.IH"(2) [OF inside False] "1.prems"
      show ?thesis unfolding eq by auto
    next
      case True
      define s1 where "s1 = (storeExchangeInternal_sync hub (h ! nat i) (h ! nat (i + 1)) tid s)
                \<lparr>lastStoredMessageIndex := i + 1\<rparr>"
      from inside True have eq: "sync_loop hub tid h i s = sync_loop hub tid h (i + 2) s1"
        unfolding s1_def by (subst sync_loop.simps) auto
      have c1: "lastStoredMessageIndex s1 = i + 1" by (simp add: s1_def)
      have here: "assistant_after_user h (i + 1)"
        using True by (simp add: assistant_after_user_def)
      from "1.IH"(1) [OF inside True] c1
      have "lastStoredMessageIndex (sync_loop hub tid h (i + 2) s1) = i + 1
        \<or> (i + 2 < lastStoredMessageIndex (sync_loop hub tid h (i + 2) s1)
           \<and> assistant_after_user h (lastStoredMessageIndex (sync_loop hub tid h (i + 2) s1)))"
        by (simp add: s1_def)
      then show ?thesis unfolding eq using here by auto
    qed
  qed
qed

lemma sync_loop_no_pair:
  "\<forall>j \<ge> i. \<not> assistant_after_user h (j + 1) \<Longrightarrow> sync_loop hub tid h i s = s"
proof (induction hub tid h i s rule: sync_loop.induct)
  case (1 hub tid h i s)
  show ?case
  proof (cases "i < int (length h)")
    case False
    then show ?thesis by (subst sync_loop.simps) simp
  next
    case inside: True
    from "1.prems" have np: "\<not> (role_at h i = Some User \<and> role_at h (i + 1) = Some Assistant)"
      by (auto simp: assistant_after_user_def)
    with inside have eq: "sync_loop hub tid h i s = sync_loop hub tid h (i + 1) s"
      by (subst sync_loop.simps) auto
    from "1.prems" have "\<forall>j \<ge> i + 1. \<not> assistant_after_user h (j + 1)" by auto
    from "1.IH"(2) [OF inside np this] show ?thesis unfolding eq .
  qed
qed

lemma syncHistory_cursor:
  "lastStoredMessageIndex (syncHistory hub tid h s) = lastStoredMessageIndex s
   \<or> (lastStoredMessageIndex s + 1 < lastStoredMessageIndex (syncHistory hub tid h s)
       \<and> assistant_after_user h (lastStoredMessageIndex (syncHistory hub tid h s)))"
proof (cases "isAvailable hub s")
  case False
  then show ?thesis by (simp add: syncHistory_def)
next
  case True
  obtain reply s' where inv: "invoke hub (CallTool semanticMemoryServerName ''get_last_chunk_index''
                   (LastChunkIndexArgs tid)) s = (reply, s')" by (cases "invoke hub (CallTool semanticMemoryServerName ''get_last_chunk_index''
                   (LastChunkIndexArgs tid)) s") 
  have c: "lastStoredMessageIndex s' = lastStoredMessageIndex s" using invoke_cursor [OF inv] .
  have loop: "lastStoredMessageIndex (sync_loop hub tid h (lastStoredMessageIndex s' + 1) s') = lastStoredMessageIndex s'
   \<or> (lastStoredMessageIndex s' + 1 < lastStoredMessageIndex (sync_loop hub tid h (lastStoredMessageIndex s' + 1) s')
       \<and> assistant_after_user h (lastStoredMessageIndex (sync_loop hub tid h (lastStoredMessageIndex s' + 1) s')))"
    by (rule sync_loop_cursor) simp
  show ?thesis
    using True inv c loop
    by (cases reply) (auto simp: syncHistory_def Let_def)
qed

lemma syncHistory_no_pair:
  "\<forall>j > lastStoredMessageIndex s. \<not> assistant_after_user h (j + 1) \<Longrightarrow>
   lastStoredMessageIndex (syncHistory hub tid h s) = lastStoredMessageIndex s"
proof (cases "isAvailable hub s")
  case False
  then show ?thesis by (simp add: syncHistory_def)
next
  case True
  assume np: "\<forall>j > lastStoredMessageIndex s. \<not> assistant_after_user h (j + 1)"
  obtain reply s' where inv: "invoke hub (CallTool semanticMemoryServerName ''get_last_chunk_index''
                   (LastChunkIndexArgs tid)) s = (reply, s')" by (cases "invoke hub (CallTool semanticMemoryServerName ''get_last_chunk_index''
                   (LastChunkIndexArgs tid)) s") 
  have c: "lastStoredMessageIndex s' = lastStoredMessageIndex s" using invoke_cursor [OF inv] .
  have "\<forall>j \<ge> lastStoredMessageIndex s' + 1. \<not> assistant_after_user h (j + 1)"
    using np c by auto
  then have loop: "sync_loop hub tid h (lastStoredMessageIndex s' + 1) s' = s'"
    by (rule sync_loop_no_pair)
  show ?thesis
    using True inv c loop
    by (cases reply) (auto simp: syncHistory_def Let_def)
qed

declare scan_to_store.simps [simp del]

lemma scan_to_store_result:
  "scan_to_store hub tid h i s = (p, s') \<Longrightarrow>
   lastStoredMessageIndex s' = lastStoredMessageIndex s
   \<and> (p = Finished \<or> (\<exists>j. p = AwaitingStore j \<and> i \<le> j \<and> assistant_after_user h (j + 1)))"
proof (induction hub tid h i s rule: scan_to_store.induct)
  case (1 hub tid h i s)
  show ?case
  proof (cases "i < int (length h)")
    case False
    with "1.prems" show ?thesis by (subst (asm) scan_to_store.simps) simp
  next
    case inside: True
    show ?thesis
    proof (cases "role_at h i = Some User \<and> role_at h (i + 1) = Some Assistant")
      case True
      with inside "1.prems"
      have "p = AwaitingStore i"
        and "s' = storeExchangeInternal_sync hub (h ! nat i) (h ! nat (i + 1)) tid s"
        by (subst (asm) scan_to_store.simps, simp)+
      with True show ?thesis by (simp add: store_sync_cursor assistant_after_user_def)
    next
      case False
      with inside "1.prems" have "scan_to_store hub tid h (i + 1) s = (p, s')"
        by (subst (asm) scan_to_store.simps) auto
      from "1.IH" [OF inside False this] show ?thesis by auto
    qed
  qed
qed

text \<open>A point that waits for a store waits at a pair.\<close>

lemma resume_cursor:
  assumes "resume hub tid h p s = (p', s')"
    and "\<And>i. p = AwaitingStore i \<Longrightarrow> assistant_after_user h (i + 1)"
  shows "(lastStoredMessageIndex s' = lastStoredMessageIndex s
          \<or> assistant_after_user h (lastStoredMessageIndex s'))
         \<and> (\<forall>i. p' = AwaitingStore i \<longrightarrow> assistant_after_user h (i + 1))"
proof (cases p)
  case NotStarted
  with assms(1) show ?thesis
    by (auto simp: resume_def invoke_def split: if_splits prod.splits)
next
  case (AwaitingIndex reply)
  with assms(1) have "(p' = Finished \<and> s' = s) \<or> (\<exists>i. scan_to_store hub tid h i s = (p', s'))"
    by (cases reply) (auto simp: resume_def Let_def split: if_splits)
  then show ?thesis
  proof
    assume "p' = Finished \<and> s' = s"
    then show ?thesis by simp
  next
    assume "\<exists>i. scan_to_store hub tid h i s = (p', s')"
    then obtain i where "scan_to_store hub tid h i s = (p', s')" by blast
    from scan_to_store_result [OF this] show ?thesis by auto
  qed
next
  case (AwaitingStore i)
  with assms(1)
  have "scan_to_store hub tid h (i + 2) (s\<lparr>lastStoredMessageIndex := i + 1\<rparr>) = (p', s')"
    by (simp add: resume_def)
  from scan_to_store_result [OF this] assms(2) [OF AwaitingStore] show ?thesis by auto
next
  case Finished
  with assms(1) show ?thesis by (simp add: resume_def)
qed

lemma resume_call_cursor:
  assumes "\<forall>i. AwaitingStore i \<in> set (fst c) \<longrightarrow> assistant_after_user h (i + 1)"
  shows "(lastStoredMessageIndex (snd (resume_call hub tid h k c)) = lastStoredMessageIndex (snd c)
          \<or> assistant_after_user h (lastStoredMessageIndex (snd (resume_call hub tid h k c))))
         \<and> (\<forall>i. AwaitingStore i \<in> set (fst (resume_call hub tid h k c))
               \<longrightarrow> assistant_after_user h (i + 1))"
proof (cases "k < length (fst c)")
  case False
  with assms show ?thesis by (simp add: resume_call_def)
next
  case True
  obtain p' s' where r: "resume hub tid h (fst c ! k) (snd c) = (p', s')"
    by (cases "resume hub tid h (fst c ! k) (snd c)")
  have "\<And>i. fst c ! k = AwaitingStore i \<Longrightarrow> assistant_after_user h (i + 1)"
    using assms True by (metis nth_mem)
  from resume_cursor [OF r this]
  have a: "lastStoredMessageIndex s' = lastStoredMessageIndex (snd c)
          \<or> assistant_after_user h (lastStoredMessageIndex s')"
    and b: "\<forall>i. p' = AwaitingStore i \<longrightarrow> assistant_after_user h (i + 1)"
    by auto
  have eq: "resume_call hub tid h k c = ((fst c)[k := p'], s')"
    using True r by (simp add: resume_call_def)
  have "\<forall>i. AwaitingStore i \<in> set ((fst c)[k := p']) \<longrightarrow> assistant_after_user h (i + 1)"
    using assms b by (auto dest!: set_update_subset_insert [THEN subsetD])
  with a show ?thesis by (simp add: eq)
qed

text \<open>
  Whatever the schedule, the cursor is the one at the start or an index that holds an
  assistant message right behind a user message.
\<close>

lemma cursor_history_values:
  assumes "\<forall>i. AwaitingStore i \<in> set (fst c) \<longrightarrow> assistant_after_user h (i + 1)"
    and "x \<in> set (cursor_history hub tid h schedule c)"
  shows "x = lastStoredMessageIndex (snd c) \<or> assistant_after_user h x"
  using assms
proof (induction schedule arbitrary: c)
  case Nil
  then show ?case by simp
next
  case (Cons k schedule)
  note step = resume_call_cursor [OF Cons.prems(1), of hub tid k]
  show ?case
  proof (cases "x = lastStoredMessageIndex (snd (resume_call hub tid h k c))")
    case True
    with step show ?thesis by auto
  next
    case False
    with Cons.prems(2) have "x \<in> set (cursor_history hub tid h schedule (resume_call hub tid h k c))"
      by simp
    from Cons.IH [OF _ this] step show ?thesis by auto
  qed
qed

text \<open>A call that runs alone, step after step, ends as \<open>syncHistory\<close> does.\<close>

lemma scan_alone:
  "\<exists>n. run_schedule hub tid h (replicate n 0)
          ([fst (scan_to_store hub tid h i s)], snd (scan_to_store hub tid h i s))
        = ([Finished], sync_loop hub tid h i s)"
proof (induction hub tid h i s rule: sync_loop.induct)
  case (1 hub tid h i s)
  show ?case
  proof (cases "i < int (length h)")
    case False
    then have "scan_to_store hub tid h i s = (Finished, s)"
      by (subst scan_to_store.simps) simp
    moreover from False have "sync_loop hub tid h i s = s"
      by (subst sync_loop.simps) simp
    ultimately have "run_schedule hub tid h (replicate 0 0)
          ([fst (scan_to_store hub tid h i s)], snd (scan_to_store hub tid h i s))
        = ([Finished], sync_loop hub tid h i s)" by simp
    then show ?thesis by blast
  next
    case inside: True
    show ?thesis
    proof (cases "role_at h i = Some User \<and> role_at h (i + 1) = Some Assistant")
      case False
      with inside have "scan_to_store hub tid h i s = scan_to_store hub tid h (i + 1) s"
        by (subst scan_to_store.simps) auto
      moreover from inside False
      have "sync_loop hub tid h i s = sync_loop hub tid h (i + 1) s"
        by (subst sync_loop.simps) auto
      ultimately show ?thesis using "1.IH"(2) [OF inside False] by simp
    next
      case True
      define st where "st = storeExchangeInternal_sync hub (h ! nat i) (h ! nat (i + 1)) tid s"
      from inside True have sc: "scan_to_store hub tid h i s = (AwaitingStore i, st)"
        unfolding st_def by (subst scan_to_store.simps) simp
      from inside True
      have sl: "sync_loop hub tid h i s
                  = sync_loop hub tid h (i + 2) (st\<lparr>lastStoredMessageIndex := i + 1\<rparr>)"
        unfolding st_def by (subst sync_loop.simps) simp
      from "1.IH"(1) [OF inside True] obtain n where
        n: "run_schedule hub tid h (replicate n 0)
              ([fst (scan_to_store hub tid h (i + 2) (st\<lparr>lastStoredMessageIndex := i + 1\<rparr>))],
               snd (scan_to_store hub tid h (i + 2) (st\<lparr>lastStoredMessageIndex := i + 1\<rparr>)))
            = ([Finished], sync_loop hub tid h (i + 2) (st\<lparr>lastStoredMessageIndex := i + 1\<rparr>))"
        unfolding st_def by blast
      have "resume_call hub tid h 0 ([AwaitingStore i], st)
              = ([fst (scan_to_store hub tid h (i + 2) (st\<lparr>lastStoredMessageIndex := i + 1\<rparr>))],
                 snd (scan_to_store hub tid h (i + 2) (st\<lparr>lastStoredMessageIndex := i + 1\<rparr>)))"
        by (simp add: resume_call_def resume_def split: prod.splits)
      with n have "run_schedule hub tid h (replicate (Suc n) 0) ([AwaitingStore i], st)
              = ([Finished], sync_loop hub tid h i s)"
        by (simp add: sl)
      then show ?thesis unfolding sc by (metis fst_conv snd_conv)
    qed
  qed
qed

lemma syncHistory_alone:
  "\<exists>n. run_schedule hub tid h (replicate n 0) ([NotStarted], s)
        = ([Finished], syncHistory hub tid h s)"
proof (cases "isAvailable hub s")
  case False
  then have "run_schedule hub tid h (replicate 1 0) ([NotStarted], s)
        = ([Finished], syncHistory hub tid h s)"
    by (simp add: resume_call_def resume_def syncHistory_def)
  then show ?thesis by blast
next
  case True
  obtain reply s' where inv: "invoke hub (CallTool semanticMemoryServerName ''get_last_chunk_index''
                   (LastChunkIndexArgs tid)) s = (reply, s')"
    by (cases "invoke hub (CallTool semanticMemoryServerName ''get_last_chunk_index''
                   (LastChunkIndexArgs tid)) s")
  from True inv have first: "resume_call hub tid h 0 ([NotStarted], s) = ([AwaitingIndex reply], s')"
    by (simp add: resume_call_def resume_def)
  show ?thesis
  proof (cases "resume hub tid h (AwaitingIndex reply) s' = (Finished, s')
                \<and> syncHistory hub tid h s = s'")
    case True
    with first have "run_schedule hub tid h (replicate 2 0) ([NotStarted], s)
        = ([Finished], syncHistory hub tid h s)"
      by (simp add: resume_call_def numeral_2_eq_2)
    then show ?thesis by blast
  next
    case False
    with True inv \<open>isAvailable hub s\<close>
    have r: "resume hub tid h (AwaitingIndex reply) s'
               = scan_to_store hub tid h (lastStoredMessageIndex s' + 1) s'"
      and sh: "syncHistory hub tid h s = sync_loop hub tid h (lastStoredMessageIndex s' + 1) s'"
      by (cases reply; auto simp: resume_def syncHistory_def Let_def split: if_splits)+
    from scan_alone [of hub tid h "lastStoredMessageIndex s' + 1" s'] obtain n where
      n: "run_schedule hub tid h (replicate n 0)
          ([fst (scan_to_store hub tid h (lastStoredMessageIndex s' + 1) s')],
           snd (scan_to_store hub tid h (lastStoredMessageIndex s' + 1) s'))
        = ([Finished], sync_loop hub tid h (lastStoredMessageIndex s' + 1) s')"
      by blast
    have "resume_call hub tid h 0 ([AwaitingIndex reply], s')
            = ([fst (scan_to_store hub tid h (lastStoredMessageIndex s' + 1) s')],
               snd (scan_to_store hub tid h (lastStoredMessageIndex s' + 1) s'))"
      by (simp add: resume_call_def r split: prod.splits)
    with first n have "run_schedule hub tid h (replicate (Suc (Suc n)) 0) ([NotStarted], s)
        = ([Finished], syncHistory hub tid h s)"
      by (simp add: sh)
    then show ?thesis by blast
  qed
qed

text \<open>
  C3. The cursor is not monotone when two calls of \<open>syncHistory\<close> overlap. On a transcript
  of two pairs, the first call waits for the store of the pair at 0 and 1; the second call
  starts, reads the cursor \<open>-1\<close>, stores both pairs and sets the cursor to 1 and then to 3;
  the first call goes on and writes its own \<open>i + 1 = 1\<close>: the cursor goes from 3 back to 1.
  What stays true under every schedule is \<open>cursor_history_values\<close>: the cursor is only ever
  set to an index that holds an assistant message right behind a user message. A call that
  runs alone does what \<open>syncHistory\<close> gives (\<open>syncHistory_alone\<close>), and never moves the
  cursor back (\<open>syncHistory_cursor\<close>).
\<close>

theorem cursor_moves_back_when_calls_overlap:
  "cursor_history (example_hub connected_registry (Json True None)) ''test-task-123''
     paired_transcript [0, 0, 1, 1, 1, 1, 0] ([NotStarted, NotStarted], fresh)
   = [- 1, - 1, - 1, - 1, 1, 3, 1]
   \<and> fst (run_schedule (example_hub connected_registry (Json True None)) ''test-task-123''
        paired_transcript [0, 0, 1, 1, 1, 1] ([NotStarted, NotStarted], fresh))
     = [AwaitingStore 0, Finished]"
  by code_simp

section \<open>The order of the enriched content\<close>

lemma format_from_typed:
  "format_from toFixed4 i (map Typed items)
     = Some (map (\<lambda>(k, item). format_memory toFixed4 k item) (zip [i ..< i + length items] items))"
proof (induction items arbitrary: i)
  case Nil
  then show ?case by simp
next
  case (Cons item items)
  have "[i ..< i + length (item # items)] = i # [Suc i ..< Suc i + length items]"
    by (simp add: upt_rec)
  with Cons [of "Suc i"] show ?case by simp
qed

text \<open>
  C6. When the event is for the owning task, no block of \<open>userContent\<close> is a stale recall
  block, the cleaned query is not empty and the service recalls a non-empty list of items,
  the handler leaves \<open>userContent\<close> as the recall block (the formatted items between the
  two markers) at index 0, followed by the original blocks, unchanged and in their order;
  its promise is fulfilled.
\<close>

theorem enrichment_ordering:
  assumes "taskId payload = thisTaskId"
    and "\<forall>b \<in> set (userContent payload). keeps_block b"
    and "userQuery = cleanMessageContent (join [nl, nl] (concat (map query_parts (userContent payload))))"
    and "userQuery \<noteq> []"
    and "enrichWithContextInternal hub userQuery (currentHistorySlice payload) s = (map Typed items, s')"
    and "items \<noteq> []"
  shows "handleBeforeUserMessageEnrichment hub toFixed4 thisTaskId payload s
     = (payload\<lparr>userContent :=
           TextBlock (recall_block_text (join ([nl] @ ''---'' @ [nl])
             (map (\<lambda>(k, item). format_memory toFixed4 k item) (zip [0 ..< length items] items))))
           # userContent payload,
         promises := promises payload @ [Fulfilled]\<rparr>, s')"
proof -
  from assms(2) have kept: "filter keeps_block (userContent payload) = userContent payload"
    by (simp add: filter_id_conv)
  have fm: "formattedMemories toFixed4 (map Typed items)
     = Some (join ([nl] @ ''---'' @ [nl])
             (map (\<lambda>(k, item). format_memory toFixed4 k item) (zip [0 ..< length items] items)))"
    by (simp add: formattedMemories_def format_from_typed)
  from assms(1,4,6) assms(5) [unfolded assms(3)] show ?thesis
    by (simp add: handleBeforeUserMessageEnrichment_def enrichmentPromise_def kept fm Let_def
        assms(3) [symmetric])
qed

lemma example_query:
  "cleanMessageContent (join [nl, nl] (concat (map query_parts (userContent example_payload))))
     = ''First'' @ [nl, nl] @ ''Second''"
  by code_simp

lemma example_context: "conversationContextString [] = []"
  by code_simp

lemma example_enrich:
  "enrichWithContextInternal (example_hub connected_registry (Json True (Some [Typed example_item])))
     (''First'' @ [nl, nl] @ ''Second'') (currentHistorySlice example_payload) fresh
   = (map Typed [example_item],
      \<lparr>world = 1,
       calls = [CallTool ''semantic-memory'' ''enrich_context''
                  (EnrichContextMcpArgs (''First'' @ [nl, nl] @ ''Second'') [] 3)],
       lastStoredMessageIndex = - 1\<rparr>)"
  by (simp add: enrichWithContextInternal_def isAvailable_def connected_registry_def invoke_def
      example_hub_def fresh_def example_payload_def example_context semanticMemoryServerName_def)

lemma example_format:
  "recall_block_text (format_memory example_toFixed4 0 example_item)
   = ''[Recalled Memories]'' @ [nl] @ ''Memory 1 (Source: mem1, Score: 0.8000):'' @ [nl]
       @ ''Recalled context'' @ [nl] @ ''[/Recalled Memories]''"
  by code_simp

theorem enrichment_ordering_witness:
  "handleBeforeUserMessageEnrichment
     (example_hub connected_registry (Json True (Some [Typed example_item])))
     example_toFixed4 ''test-task-123'' example_payload fresh
   = (\<lparr>taskId = ''test-task-123'',
       userContent =
         [TextBlock (''[Recalled Memories]'' @ [nl] @ ''Memory 1 (Source: mem1, Score: 0.8000):''
            @ [nl] @ ''Recalled context'' @ [nl] @ ''[/Recalled Memories]''),
          TextBlock ''First'', ImageBlock ''fakeimgdata'', TextBlock ''Second''],
       currentHistorySlice = [], promises = [Fulfilled]\<rparr>,
      \<lparr>world = 1,
       calls = [CallTool ''semantic-memory'' ''enrich_context''
                  (EnrichContextMcpArgs (''First'' @ [nl, nl] @ ''Second'') [] 3)],
       lastStoredMessageIndex = - 1\<rparr>)"
proof -
  have 1: "taskId example_payload = ''test-task-123''" by (simp add: example_payload_def)
  have 2: "\<forall>b \<in> set (userContent example_payload). keeps_block b"
    by (simp add: example_payload_def trim_def is_space_def)
  have 4: "''First'' @ [nl, nl] @ ''Second'' \<noteq> []" by simp
  have 6: "[example_item] \<noteq> []" by simp
  from enrichment_ordering [OF 1 2 example_query [symmetric] 4 example_enrich 6,
      of example_toFixed4]
  show ?thesis
    by (simp add: example_format [simplified] example_payload_def)
qed

section \<open>The text that is stored\<close>

lemma text_blocks_as_spec:
  "map block_text (filter is_text bs)
     = concat (map spec_piece (filter (\<lambda>b. \<not> is_tool_result b) bs))"
proof (induction bs)
  case Nil
  then show ?case by simp
next
  case (Cons b bs)
  then show ?case by (cases b) simp_all
qed

lemma invoke_calls: "calls (snd (invoke hub c s)) = calls s @ [c]"
  by (simp add: invoke_def split: prod.splits)

text \<open>
  C7, as amended. For a message whose content is a block array, the text that
  \<open>storeExchangeInternal\<close> derives is the texts of the text blocks, in order, joined by
  \<open>"\n\n"\<close>: it is what the rule of the specification gives once the tool results are
  taken out of the array, so a tool result contributes nothing, like every other block
  that is not a text block. These texts, cleaned, are what the call of \<open>store_exchange\<close>
  sends.
\<close>

theorem storage_text_extraction:
  "text_of_content [nl, nl] (Blocks bs)
     = spec_text_extraction (Blocks (filter (\<lambda>b. \<not> is_tool_result b) bs))
   \<and> (isAvailable hub s \<and> content um = Blocks ubs \<and> content am = Blocks asb
       \<and> \<not> (cleanMessageContent (join [nl, nl] (map block_text (filter is_text ubs))) = []
            \<and> cleanMessageContent (join [nl, nl] (map block_text (filter is_text asb))) = [])
       \<longrightarrow> calls (storeExchangeInternal hub um am tid s)
           = calls s @
             [CallTool semanticMemoryServerName ''store_exchange''
                (StoreExchangeMcpPayload
                   (cleanMessageContent (join [nl, nl] (map block_text (filter is_text ubs))))
                   (cleanMessageContent (join [nl, nl] (map block_text (filter is_text asb))))
                   tid (ts um) (ts am))])"
proof (intro conjI impI)
  show "text_of_content [nl, nl] (Blocks bs)
     = spec_text_extraction (Blocks (filter (\<lambda>b. \<not> is_tool_result b) bs))"
    by (simp add: text_blocks_as_spec)
next
  assume a: "isAvailable hub s \<and> content um = Blocks ubs \<and> content am = Blocks asb
       \<and> \<not> (cleanMessageContent (join [nl, nl] (map block_text (filter is_text ubs))) = []
            \<and> cleanMessageContent (join [nl, nl] (map block_text (filter is_text asb))) = [])"
  then show "calls (storeExchangeInternal hub um am tid s)
           = calls s @
             [CallTool semanticMemoryServerName ''store_exchange''
                (StoreExchangeMcpPayload
                   (cleanMessageContent (join [nl, nl] (map block_text (filter is_text ubs))))
                   (cleanMessageContent (join [nl, nl] (map block_text (filter is_text asb))))
                   tid (ts um) (ts am))]"
    by (auto simp: storeExchangeInternal_def Let_def invoke_calls)
qed

lemma tool_message_clean:
  "cleanMessageContent ''See the output'' = ''See the output''"
  "cleanMessageContent ''Done'' = ''Done''"
  by code_simp+

theorem storage_text_extraction_witness:
  "calls (storeExchangeInternal (example_hub connected_registry (Json True None))
            tool_message \<lparr>role = Assistant, content = Blocks [TextBlock ''Done''], ts = None\<rparr>
            ''task123'' fresh)
   = [CallTool ''semantic-memory'' ''store_exchange''
        (StoreExchangeMcpPayload ''See the output'' ''Done'' ''task123'' (Some 1700) None)]"
  using storage_text_extraction [of "[]" "example_hub connected_registry (Json True None)" fresh
      tool_message "[TextBlock ''See the output'', ToolResultBlock (StringContent ''exit code 0'')]"
      "\<lparr>role = Assistant, content = Blocks [TextBlock ''Done''], ts = None\<rparr>"
      "[TextBlock ''Done'']" "''task123''"]
  by (simp add: tool_message_clean isAvailable_example_hub tool_message_def fresh_def
      semanticMemoryServerName_def)

theorem storage_text_extraction_counterexample:
  "text_of_content [nl, nl] (content tool_message) = ''See the output''
   \<and> spec_text_extraction (content tool_message)
       = ''See the output'' @ [nl, nl] @ ''exit code 0''
   \<and> text_of_content [nl, nl] (content tool_message)
       \<noteq> spec_text_extraction (content tool_message)"
  by (simp add: tool_message_def)

section \<open>The conversation context\<close>

lemma slice_last_nth:
  "length (slice_last k xs) = min k (length xs)
   \<and> (\<forall>i < min k (length xs). slice_last k xs ! i = xs ! (length xs - min k (length xs) + i))"
  by (auto simp: slice_last_def min_def)

text \<open>
  C8, as amended. When the service is available, \<open>enrichWithContextInternal\<close> makes one
  call, of \<open>enrich_context\<close>, with the query, \<open>topK = 3\<close> and a conversation context that
  is built from the last six entries of the history (all of them when there are fewer), in
  their order, one line for each, the lines joined by a line feed. The line of an entry is
  its role, \<open>": "\<close>, and its cleaned text, where the text of an array content is the texts
  of its text blocks joined by a single space.
\<close>

theorem conversation_context:
  "(isAvailable hub s \<longrightarrow>
      calls (snd (enrichWithContextInternal hub query recentHistory s))
        = calls s @
          [CallTool semanticMemoryServerName ''enrich_context''
             (EnrichContextMcpArgs query
                (join [nl] (map context_line (slice_last 6 recentHistory))) 3)])
   \<and> length (slice_last 6 recentHistory) = min 6 (length recentHistory)
   \<and> (\<forall>i < min 6 (length recentHistory).
         slice_last 6 recentHistory ! i
           = recentHistory ! (length recentHistory - min 6 (length recentHistory) + i))
   \<and> context_line msg
       = role_name (role msg) @ '': '' @
         cleanMessageContent
           (case content msg of
              Str t \<Rightarrow> t
            | Blocks bs \<Rightarrow> join '' '' (map block_text (filter is_text bs)))"
proof (intro conjI impI)
  assume "isAvailable hub s"
  then show "calls (snd (enrichWithContextInternal hub query recentHistory s))
        = calls s @
          [CallTool semanticMemoryServerName ''enrich_context''
             (EnrichContextMcpArgs query
                (join [nl] (map context_line (slice_last 6 recentHistory))) 3)]"
    by (auto simp: enrichWithContextInternal_def conversationContextString_def invoke_def
        split: prod.splits tool_reply.splits option.splits)
next
  show "length (slice_last 6 recentHistory) = min 6 (length recentHistory)"
    using slice_last_nth [of 6 recentHistory] by simp
next
  show "\<forall>i < min 6 (length recentHistory).
         slice_last 6 recentHistory ! i
           = recentHistory ! (length recentHistory - min 6 (length recentHistory) + i)"
    using slice_last_nth [of 6 recentHistory] by simp
next
  show "context_line msg
       = role_name (role msg) @ '': '' @
         cleanMessageContent
           (case content msg of
              Str t \<Rightarrow> t
            | Blocks bs \<Rightarrow> join '' '' (map block_text (filter is_text bs)))"
    by (cases "content msg") (simp_all add: context_line_def)
qed

lemma example_lines:
  "join [nl] (map context_line (slice_last 6
      [user_says ''1'', assistant_says ''2'', user_says ''3'', assistant_says ''4'',
       user_says ''5'', assistant_says ''6'', two_block_message]))
   = ''assistant: 2'' @ [nl] @ ''user: 3'' @ [nl] @ ''assistant: 4'' @ [nl] @ ''user: 5'' @ [nl]
       @ ''assistant: 6'' @ [nl] @ ''user: a b''"
  by code_simp

theorem conversation_context_witness:
  "calls (snd (enrichWithContextInternal (example_hub connected_registry (Json True None))
       ''Test query''
       [user_says ''1'', assistant_says ''2'', user_says ''3'', assistant_says ''4'',
        user_says ''5'', assistant_says ''6'', two_block_message] fresh))
   = [CallTool ''semantic-memory'' ''enrich_context''
        (EnrichContextMcpArgs ''Test query''
           (''assistant: 2'' @ [nl] @ ''user: 3'' @ [nl] @ ''assistant: 4'' @ [nl] @ ''user: 5''
              @ [nl] @ ''assistant: 6'' @ [nl] @ ''user: a b'') 3)]"
  using conversation_context [of "example_hub connected_registry (Json True None)" fresh
      "''Test query''"
      "[user_says ''1'', assistant_says ''2'', user_says ''3'', assistant_says ''4'',
        user_says ''5'', assistant_says ''6'', two_block_message]" two_block_message]
  by (simp add: isAvailable_example_hub example_lines [simplified] fresh_def
      semanticMemoryServerName_def)

theorem conversation_context_counterexample:
  "conversationContextString [two_block_message] = ''user: a b''
   \<and> spec_conversationContext [two_block_message] = ''user: a'' @ [nl, nl] @ ''b''
   \<and> conversationContextString [two_block_message] \<noteq> spec_conversationContext [two_block_message]"
  by code_simp

section \<open>The storage handler and the completion signal\<close>

text \<open>
  C9, as amended. For an event of the owning task, the storage handler of the revision
  with \<open>syncHistory\<close> runs \<open>syncHistory\<close> when the assistant's text (a string content, or
  the text blocks joined by \<open>"\n\n"\<close>) includes \<open><attempt_completion>\<close>, and does nothing
  otherwise: it stores no single exchange. The storage handler of
  \<open>src/integrations/SemanticMemoryIntegration.ts\<close> stores the single exchange with
  \<open>storeExchangeInternal\<close>, whatever the text.
\<close>

theorem storage_handler:
  "taskId payload = thisTaskId \<longrightarrow>
     (includes_str (text_of_content [nl, nl] (content (assistantMessage payload)))
        ''<attempt_completion>''
      \<longrightarrow> handleAfterAssistantResponseProcessed_sync hub thisTaskId history payload s
          = syncHistory hub thisTaskId history s)
     \<and> (\<not> includes_str (text_of_content [nl, nl] (content (assistantMessage payload)))
          ''<attempt_completion>''
        \<longrightarrow> handleAfterAssistantResponseProcessed_sync hub thisTaskId history payload s = s)
     \<and> handleAfterAssistantResponseProcessed hub thisTaskId payload s
         = storeExchangeInternal hub (userMessage payload) (assistantMessage payload)
             thisTaskId s"
  by (auto simp: handleAfterAssistantResponseProcessed_sync_def
      handleAfterAssistantResponseProcessed_def Let_def)

lemma example_plain:
  "\<not> includes_str (text_of_content [nl, nl] (content (assistantMessage example_processed)))
      ''<attempt_completion>''"
  by code_simp

lemma example_marked:
  "includes_str (text_of_content [nl, nl] (content (assistantMessage example_completion)))
      ''<attempt_completion>''"
  by code_simp

lemma example_sync:
  "calls (syncHistory (example_hub connected_registry (Json True None)) ''test-task-123''
      [user_says ''User question'',
       assistant_says ''<attempt_completion><result>All done</result></attempt_completion>'']
      fresh)
   = [CallTool ''semantic-memory'' ''get_last_chunk_index'' (LastChunkIndexArgs ''test-task-123''),
      CallTool ''semantic-memory'' ''store_exchange''
        (StoreExchangeMcpPayload ''User question'' [] ''test-task-123'' None None)]"
  by code_simp

theorem storage_handler_witness:
  "handleAfterAssistantResponseProcessed_sync (example_hub connected_registry (Json True None))
     ''test-task-123'' [user_says ''User question'', assistant_says ''Assistant answer'']
     example_processed fresh = fresh
   \<and> calls (handleAfterAssistantResponseProcessed_sync
        (example_hub connected_registry (Json True None)) ''test-task-123''
        [user_says ''User question'',
         assistant_says ''<attempt_completion><result>All done</result></attempt_completion>'']
        example_completion fresh)
     = [CallTool ''semantic-memory'' ''get_last_chunk_index''
          (LastChunkIndexArgs ''test-task-123''),
        CallTool ''semantic-memory'' ''store_exchange''
          (StoreExchangeMcpPayload ''User question'' [] ''test-task-123'' None None)]"
proof -
  have t1: "taskId example_processed = ''test-task-123''" by (simp add: example_processed_def)
  have t2: "taskId example_completion = ''test-task-123''" by (simp add: example_completion_def)
  from storage_handler [of example_processed "''test-task-123''"
      "example_hub connected_registry (Json True None)"
      "[user_says ''User question'', assistant_says ''Assistant answer'']" fresh]
    t1 example_plain
  have a: "handleAfterAssistantResponseProcessed_sync (example_hub connected_registry (Json True None))
     ''test-task-123'' [user_says ''User question'', assistant_says ''Assistant answer'']
     example_processed fresh = fresh"
    by blast
  from storage_handler [of example_completion "''test-task-123''"
      "example_hub connected_registry (Json True None)"
      "[user_says ''User question'',
         assistant_says ''<attempt_completion><result>All done</result></attempt_completion>'']" fresh]
    t2 example_marked
  have b: "handleAfterAssistantResponseProcessed_sync
        (example_hub connected_registry (Json True None)) ''test-task-123''
        [user_says ''User question'',
         assistant_says ''<attempt_completion><result>All done</result></attempt_completion>'']
        example_completion fresh
      = syncHistory (example_hub connected_registry (Json True None)) ''test-task-123''
      [user_says ''User question'',
       assistant_says ''<attempt_completion><result>All done</result></attempt_completion>'']
      fresh"
    by blast
  show ?thesis using a b example_sync by simp
qed

theorem storage_handler_counterexample:
  "taskId example_processed = ''test-task-123''
   \<and> isAvailable (example_hub connected_registry (Json True None)) fresh
   \<and> \<not> includes_str (text_of_content [nl, nl] (content (assistantMessage example_processed)))
        ''<attempt_completion>''
   \<and> calls (handleAfterAssistantResponseProcessed_sync
        (example_hub connected_registry (Json True None)) ''test-task-123''
        [user_says ''User question'', assistant_says ''Assistant answer'']
        example_processed fresh) = []
   \<and> includes_str (text_of_content [nl, nl] (content (assistantMessage example_completion)))
        ''<attempt_completion>''
   \<and> calls (handleAfterAssistantResponseProcessed
        (example_hub connected_registry (Json True None)) ''test-task-123''
        example_completion fresh)
     = [CallTool ''semantic-memory'' ''store_exchange''
          (StoreExchangeMcpPayload ''User question'' [] ''test-task-123'' None None)]"
  by code_simp

section \<open>The promise of the enrichment handler\<close>

lemma one_promise_pushed:
  "\<exists>outcome. promises (fst (handleBeforeUserMessageEnrichment hub toFixed4 thisTaskId payload s))
     = promises payload @ [outcome]"
  by (simp add: handleBeforeUserMessageEnrichment_def split: prod.splits)

lemma format_from_None: "format_from toFixed4 i ms = None \<longleftrightarrow> Null \<in> set ms"
proof (induction ms arbitrary: i)
  case Nil
  then show ?case by simp
next
  case (Cons m ms)
  then show ?case by (cases m) (auto split: option.splits)
qed

lemma rejects_only_on_null:
  assumes "promises (fst (handleBeforeUserMessageEnrichment hub toFixed4 thisTaskId payload s))
     = promises payload @ [Rejected]"
  shows "Null \<in> set (fst (enrichWithContextInternal hub
            (cleanMessageContent (join [nl, nl]
               (concat (map query_parts (filter keeps_block (userContent payload))))))
            (currentHistorySlice payload) s))"
  using assms
  by (auto simp: handleBeforeUserMessageEnrichment_def enrichmentPromise_def Let_def
      formattedMemories_def format_from_None
      split: prod.splits if_splits option.splits)

text \<open>
  C10. The handler pushes one promise in every case (\<open>one_promise_pushed\<close>), but the promise
  can reject: the recalled array is formatted outside every \<open>try\<close>, and when the service
  answers \<open>{"success": true, "recalled_memories": [null]}\<close> the array \<open>[null]\<close> comes back
  from \<open>enrichWithContextInternal\<close> and reading \<open>sourceId\<close> of its element throws. Among
  the replies of the model, whose elements are items or \<open>null\<close>, a rejection needs such
  an element (\<open>rejects_only_on_null\<close>).
\<close>

theorem enrichment_promise_rejects:
  "enrichWithContextInternal (example_hub connected_registry (Json True (Some [Null])))
     (''First'' @ [nl, nl] @ ''Second'') (currentHistorySlice example_payload) fresh
   = ([Null],
      \<lparr>world = 1,
       calls = [CallTool ''semantic-memory'' ''enrich_context''
                  (EnrichContextMcpArgs (''First'' @ [nl, nl] @ ''Second'') [] 3)],
       lastStoredMessageIndex = - 1\<rparr>)
   \<and> promises (fst (handleBeforeUserMessageEnrichment
        (example_hub connected_registry (Json True (Some [Null])))
        example_toFixed4 ''test-task-123'' example_payload fresh)) = [Rejected]"
  by code_simp

section \<open>The recall block through the sanitizer\<close>

lemma strip_prefix_append: "strip_prefix p (p @ r) = Some r"
  by (induction p) simp_all

lemma strip_prefix_None_append:
  "strip_prefix lit a = None \<Longrightarrow> c \<notin> set lit \<Longrightarrow> strip_prefix lit (a @ c # rest) = None"
  by (induction lit a rule: strip_prefix.induct) (auto split: if_splits)

lemma skip_to_no_cross:
  "skip_to lit f = None \<Longrightarrow> c \<notin> set lit \<Longrightarrow> skip_to lit (f @ c # rest) = skip_to lit (c # rest)"
proof (induction f)
  case Nil
  then show ?case by simp
next
  case (Cons d f)
  from Cons.prems(1) have a: "strip_prefix lit (d # f) = None" and b: "skip_to lit f = None"
    by (auto split: option.splits)
  from strip_prefix_None_append [OF a Cons.prems(2), of rest]
  have "strip_prefix lit (d # f @ c # rest) = None" by simp
  with Cons.IH [OF b Cons.prems(2)] show ?case by simp
qed

lemma replace_g_block_absent:
  "\<not> includes_str s opn \<Longrightarrow> replace_g (block_re opn cls) rep s = s"
proof (induction s)
  case Nil
  then show ?case by simp
next
  case (Cons c s)
  from Cons.prems have a: "strip_prefix opn (c # s) = None" and b: "skip_to opn s = None"
    by (auto simp: includes_str_def split: option.splits)
  from a have "block_re opn cls (c # s) = None" by (simp add: block_re_def)
  moreover from b Cons.IH have "replace_g (block_re opn cls) rep s = s"
    by (simp add: includes_str_def)
  ultimately show ?case by simp
qed

lemma environment_absent_in_block:
  assumes "\<not> includes_str f ''<environment_details>''"
  shows "\<not> includes_str (recall_block_text f) ''<environment_details>''"
proof -
  from assms have n: "skip_to ''<environment_details>'' f = None" by (simp add: includes_str_def)
  have nin: "nl \<notin> set ''<environment_details>''" by (simp add: nl_def)
  have tail: "skip_to ''<environment_details>'' (nl # ''[/Recalled Memories]'') = None"
    by (simp add: nl_def)
  from skip_to_no_cross [OF n nin, of "''[/Recalled Memories]''"] tail
  have "skip_to ''<environment_details>'' (f @ nl # ''[/Recalled Memories]'') = None" by simp
  then show ?thesis
    by (simp add: includes_str_def recall_block_text_def nl_def)
qed

lemma remove_recalled_block:
  assumes "\<not> includes_str f ''[/Recalled Memories]''"
  shows "remove_recalled (recall_block_text f) = []"
proof -
  from assms have n: "skip_to ''[/Recalled Memories]'' f = None" by (simp add: includes_str_def)
  have nin: "nl \<notin> set ''[/Recalled Memories]''" by (simp add: nl_def)
  have tail: "skip_to ''[/Recalled Memories]'' (nl # ''[/Recalled Memories]'') = Some []"
    by (simp add: nl_def)
  from skip_to_no_cross [OF n nin, of "''[/Recalled Memories]''"] tail
  have s: "skip_to ''[/Recalled Memories]'' (f @ nl # ''[/Recalled Memories]'') = Some []" by simp
  have "skip_to ''[/Recalled Memories]'' (nl # f @ nl # ''[/Recalled Memories]'') = Some []"
    using s by (simp add: nl_def)
  then have "block_re ''[Recalled Memories]'' ''[/Recalled Memories]''
      (''[Recalled Memories]'' @ nl # f @ nl # ''[/Recalled Memories]'') = Some []"
    unfolding block_re_def strip_prefix_append by simp
  then show ?thesis
    by (simp add: remove_recalled_def recall_block_text_def)
qed

lemma clean_after_recalled:
  "trim (consolidate (remove_any_tag (remove_tool_tags (remove_self_closing
      (remove_block_tools (remove_diff [])))))) = []"
  by code_simp

text \<open>
  A recall block whose formatted text holds neither the closing marker
  \<open>[/Recalled Memories]\<close> nor \<open><environment_details>\<close> is cleaned, on its own, to the empty
  text.
\<close>

lemma recall_block_cleaned:
  assumes "\<not> includes_str formatted ''[/Recalled Memories]''"
    and "\<not> includes_str formatted ''<environment_details>''"
  shows "cleanMessageContent (recall_block_text formatted) = []"
proof -
  have "remove_environment (recall_block_text formatted) = recall_block_text formatted"
    unfolding remove_environment_def
    by (rule replace_g_block_absent) (rule environment_absent_in_block [OF assms(2)])
  then have "strip_markup (recall_block_text formatted)
      = remove_any_tag (remove_tool_tags (remove_self_closing
          (remove_block_tools (remove_diff []))))"
    by (simp add: strip_markup_def remove_recalled_block [OF assms(1)])
  then show ?thesis
    by (simp add: cleanMessageContent_def clean_after_recalled)
qed

section \<open>The sanitizer on its own output\<close>

lemma is_space_nl [simp]: "is_space nl"
  by (simp add: is_space_def nl_def)

lemma spaces_nl_split:
  "spaces_nl cs = Some r \<Longrightarrow>
   \<exists>ws. cs = ws @ r \<and> ws \<noteq> [] \<and> (\<forall>w \<in> set ws. is_space w)"
proof (induction cs arbitrary: r)
  case Nil
  then show ?case by simp
next
  case (Cons c cs)
  show ?case
  proof (cases "spaces_nl cs")
    case None
    with Cons.prems have "is_space c" "r = cs" by (auto split: if_splits)
    then have "c # cs = [c] @ r \<and> [c] \<noteq> [] \<and> (\<forall>w \<in> set [c]. is_space w)" by simp
    then show ?thesis by blast
  next
    case (Some r')
    with Cons.prems have sp: "is_space c" and r: "r = r'" by (auto split: if_splits)
    from Cons.IH [OF Some] obtain ws where "cs = ws @ r'" "\<forall>w \<in> set ws. is_space w" by blast
    with sp r have "c # cs = (c # ws) @ r \<and> c # ws \<noteq> [] \<and> (\<forall>w \<in> set (c # ws). is_space w)"
      by simp
    then show ?thesis by blast
  qed
qed

lemma spaces_nl_length: "spaces_nl cs = Some r \<Longrightarrow> length r < length cs"
  using spaces_nl_split [of cs r] by (cases "spaces_nl cs") auto

lemma spaces_nl_last: "spaces_nl cs = Some r \<Longrightarrow> spaces_nl r = None"
proof (induction cs arbitrary: r)
  case Nil
  then show ?case by simp
next
  case (Cons c cs)
  then show ?case by (cases "spaces_nl cs") (auto split: if_splits)
qed

lemma consolidate_Nil [simp]: "consolidate [] = []"
  by (simp add: consolidate_def)

lemma consolidate_Cons:
  "consolidate (c # cs) =
     (if c = nl then
        (case spaces_nl cs of
           Some r \<Rightarrow> nl # nl # consolidate r
         | None \<Rightarrow> c # consolidate cs)
      else c # consolidate cs)"
  by (auto simp: consolidate_def dest: spaces_nl_length split: option.splits)

lemma consolidate_keep:
  "c \<noteq> nl \<or> spaces_nl cs = None \<Longrightarrow> consolidate (c # cs) = c # consolidate cs"
  by (auto simp: consolidate_Cons)

lemma consolidate_match:
  "spaces_nl cs = Some r \<Longrightarrow> consolidate (nl # cs) = nl # nl # consolidate r"
  by (simp add: consolidate_Cons)

lemma spaces_nl_consolidate: "spaces_nl cs = None \<Longrightarrow> spaces_nl (consolidate cs) = None"
proof (induction cs)
  case Nil
  then show ?case by simp
next
  case (Cons c cs)
  show ?case
  proof (cases "is_space c")
    case False
    then have "c \<noteq> nl" by auto
    with False show ?thesis by (simp add: consolidate_keep)
  next
    case True
    with Cons.prems have n: "spaces_nl cs = None" and c: "c \<noteq> nl"
      by (auto split: option.splits if_splits)
    from Cons.IH [OF n] c True show ?thesis by (simp add: consolidate_keep)
  qed
qed

lemma consolidate_idem: "consolidate (consolidate s) = consolidate s"
proof (induction s rule: length_induct)
  case (1 s)
  show ?case
  proof (cases s)
    case Nil
    then show ?thesis by simp
  next
    case (Cons c cs)
    show ?thesis
    proof (cases "c = nl \<and> spaces_nl cs \<noteq> None")
      case True
      then obtain r where r: "spaces_nl cs = Some r" and c: "c = nl" by auto
      from spaces_nl_length [OF r] Cons have "length r < length s" by simp
      with 1 have ih: "consolidate (consolidate r) = consolidate r" by blast
      have "spaces_nl (consolidate r) = None"
        using spaces_nl_last [OF r] by (rule spaces_nl_consolidate)
      then have "spaces_nl (nl # consolidate r) = Some (consolidate r)" by simp
      then have "consolidate (nl # nl # consolidate r) = nl # nl # consolidate (consolidate r)"
        by (rule consolidate_match)
      with ih r c Cons show ?thesis by (simp add: consolidate_match)
    next
      case False
      then have k: "c \<noteq> nl \<or> spaces_nl cs = None" by auto
      then have k': "c \<noteq> nl \<or> spaces_nl (consolidate cs) = None"
        using spaces_nl_consolidate [of cs] by auto
      from 1 Cons have ih: "consolidate (consolidate cs) = consolidate cs" by simp
      from consolidate_keep [OF k] consolidate_keep [OF k'] ih Cons show ?thesis by simp
    qed
  qed
qed

lemma consolidate_dropWhile:
  "consolidate (dropWhile is_space s) = dropWhile is_space (consolidate s)"
proof (induction s rule: length_induct)
  case (1 s)
  show ?case
  proof (cases s)
    case Nil
    then show ?thesis by simp
  next
    case (Cons c cs)
    show ?thesis
    proof (cases "c = nl \<and> spaces_nl cs \<noteq> None")
      case True
      then obtain r where r: "spaces_nl cs = Some r" and c: "c = nl" by auto
      from spaces_nl_split [OF r] obtain ws where ws: "cs = ws @ r" "\<forall>w \<in> set ws. is_space w"
        by blast
      from spaces_nl_length [OF r] Cons have "length r < length s" by simp
      with 1 have ih: "consolidate (dropWhile is_space r) = dropWhile is_space (consolidate r)"
        by blast
      from ws have "dropWhile is_space (c # cs) = dropWhile is_space r"
        by (simp add: c dropWhile_append)
      with ih r c Cons show ?thesis by (simp add: consolidate_match)
    next
      case False
      then have k: "c \<noteq> nl \<or> spaces_nl cs = None" by auto
      from 1 Cons have ih: "consolidate (dropWhile is_space cs) = dropWhile is_space (consolidate cs)"
        by simp
      show ?thesis
      proof (cases "is_space c")
        case True
        with ih Cons show ?thesis by (simp add: consolidate_keep [OF k])
      next
        case False
        with Cons show ?thesis by (simp add: consolidate_keep [OF k])
      qed
    qed
  qed
qed

lemma consolidate_spaces: "\<forall>w \<in> set s. is_space w \<Longrightarrow> \<forall>w \<in> set (consolidate s). is_space w"
proof (induction s rule: length_induct)
  case (1 s)
  show ?case
  proof (cases s)
    case Nil
    then show ?thesis by simp
  next
    case (Cons c cs)
    show ?thesis
    proof (cases "c = nl \<and> spaces_nl cs \<noteq> None")
      case True
      then obtain r where r: "spaces_nl cs = Some r" and c: "c = nl" by auto
      from spaces_nl_split [OF r] obtain ws where ws: "cs = ws @ r" by blast
      from spaces_nl_length [OF r] Cons have len: "length r < length s" by simp
      from ws 1(2) Cons have "\<forall>w \<in> set r. is_space w" by simp
      with 1(1) len have "\<forall>w \<in> set (consolidate r). is_space w" by blast
      with r c Cons show ?thesis by (simp add: consolidate_match)
    next
      case False
      then have k: "c \<noteq> nl \<or> spaces_nl cs = None" by auto
      from 1(2) Cons have "\<forall>w \<in> set cs. is_space w" by simp
      with 1(1) [rule_format, of cs] Cons have "\<forall>w \<in> set (consolidate cs). is_space w"
        by simp
      with 1(2) Cons show ?thesis by (simp add: consolidate_keep [OF k])
    qed
  qed
qed

lemma spaces_nl_append:
  "\<exists>x \<in> set cs. \<not> is_space x \<Longrightarrow> spaces_nl (cs @ b) = map_option (\<lambda>r. r @ b) (spaces_nl cs)"
proof (induction cs)
  case Nil
  then show ?case by simp
next
  case (Cons c cs)
  show ?case
  proof (cases "is_space c")
    case False
    then show ?thesis by simp
  next
    case True
    with Cons.prems have "\<exists>x \<in> set cs. \<not> is_space x" by auto
    from Cons.IH [OF this] True show ?thesis by (cases "spaces_nl cs") simp_all
  qed
qed

lemma consolidate_append:
  "a \<noteq> [] \<Longrightarrow> \<not> is_space (last a) \<Longrightarrow>
   consolidate (a @ b) = consolidate a @ consolidate b
   \<and> consolidate a \<noteq> [] \<and> last (consolidate a) = last a"
proof (induction a rule: length_induct)
  case (1 a)
  from 1(2) obtain c cs where a: "a = c # cs" by (cases a) auto
  show ?case
  proof (cases "cs = []")
    case True
    with a 1(3) have "\<not> is_space c" by simp
    then have "c \<noteq> nl" by auto
    with a True show ?thesis by (simp add: consolidate_keep)
  next
    case ne: False
    with a 1(3) have lastcs: "\<not> is_space (last cs)" by simp
    from ne have "last cs \<in> set cs" by simp
    with lastcs have ex: "\<exists>x \<in> set cs. \<not> is_space x" by blast
    show ?thesis
    proof (cases "c = nl \<and> spaces_nl cs \<noteq> None")
      case True
      then obtain r where r: "spaces_nl cs = Some r" and c: "c = nl" by auto
      from spaces_nl_split [OF r] obtain ws where ws: "cs = ws @ r" "\<forall>w \<in> set ws. is_space w"
        by blast
      from ws ex have rne: "r \<noteq> []" by auto
      with ws have lastr: "last r = last cs" by simp
      from spaces_nl_length [OF r] a have "length r < length a" by simp
      with 1(1) rne lastr lastcs
      have ih: "consolidate (r @ b) = consolidate r @ consolidate b
                \<and> consolidate r \<noteq> [] \<and> last (consolidate r) = last r"
        by simp
      from spaces_nl_append [OF ex, of b] r have "spaces_nl (cs @ b) = Some (r @ b)" by simp
      then have "consolidate (nl # cs @ b) = nl # nl # consolidate (r @ b)"
        by (rule consolidate_match)
      with ih r c a ne lastr show ?thesis by (simp add: consolidate_match)
    next
      case False
      then have k: "c \<noteq> nl \<or> spaces_nl cs = None" by auto
      with spaces_nl_append [OF ex, of b] have k': "c \<noteq> nl \<or> spaces_nl (cs @ b) = None" by auto
      from 1(1) a ne lastcs
      have ih: "consolidate (cs @ b) = consolidate cs @ consolidate b
                \<and> consolidate cs \<noteq> [] \<and> last (consolidate cs) = last cs"
        by simp
      from consolidate_keep [OF k] consolidate_keep [OF k'] ih a ne show ?thesis by simp
    qed
  qed
qed

text \<open>The text without its trailing white space.\<close>

lemma trim_end_split:
  "s = rev (dropWhile is_space (rev s)) @ rev (takeWhile is_space (rev s))"
  by (metis rev_append rev_rev_ident takeWhile_dropWhile_id)

lemma trim_end_last:
  "rev (dropWhile is_space (rev s)) \<noteq> [] \<Longrightarrow> \<not> is_space (last (rev (dropWhile is_space (rev s))))"
  by (simp add: last_rev hd_dropWhile)

lemma trim_end_append_spaces:
  "\<forall>w \<in> set ws. is_space w \<Longrightarrow> u = [] \<or> \<not> is_space (last u) \<Longrightarrow>
   rev (dropWhile is_space (rev (u @ ws))) = u"
proof -
  assume ws: "\<forall>w \<in> set ws. is_space w" and u: "u = [] \<or> \<not> is_space (last u)"
  have "dropWhile is_space (rev ws @ rev u) = dropWhile is_space (rev u)"
    using ws by (simp add: dropWhile_append)
  moreover have "dropWhile is_space (rev u) = rev u"
    using u by (cases "rev u") (auto simp: last_rev dest: arg_cong [where f = rev])
  ultimately show ?thesis by simp
qed

lemma consolidate_trim_end:
  "consolidate (rev (dropWhile is_space (rev s))) = rev (dropWhile is_space (rev (consolidate s)))"
proof -
  define a where "a = rev (dropWhile is_space (rev s))"
  define ws where "ws = rev (takeWhile is_space (rev s))"
  have s: "s = a @ ws" unfolding a_def ws_def by (rule trim_end_split)
  have wsp: "\<forall>w \<in> set ws. is_space w" unfolding ws_def by (auto dest: set_takeWhileD)
  then have cwsp: "\<forall>w \<in> set (consolidate ws). is_space w" by (rule consolidate_spaces)
  have "consolidate a = rev (dropWhile is_space (rev (consolidate s)))"
  proof (cases "a = []")
    case True
    with s cwsp have "rev (dropWhile is_space (rev (consolidate s))) = []"
      using trim_end_append_spaces [of "consolidate ws" "[]"] by simp
    with True show ?thesis by simp
  next
    case False
    then have la: "\<not> is_space (last a)" unfolding a_def by (rule trim_end_last)
    from consolidate_append [OF False la, of ws]
    have c: "consolidate s = consolidate a @ consolidate ws"
      and l: "consolidate a \<noteq> []" "last (consolidate a) = last a"
      by (simp_all add: s)
    from l la have "consolidate a = [] \<or> \<not> is_space (last (consolidate a))" by simp
    from trim_end_append_spaces [OF cwsp this] c
    show ?thesis by simp
  qed
  then show ?thesis unfolding a_def .
qed

lemma consolidate_trim: "consolidate (trim s) = trim (consolidate s)"
  by (simp add: trim_def consolidate_trim_end consolidate_dropWhile)

lemma trim_ends:
  "trim s = [] \<or> (\<not> is_space (hd (trim s)) \<and> \<not> is_space (last (trim s)))"
proof (cases "trim s = []")
  case True
  then show ?thesis by simp
next
  case False
  define t where "t = dropWhile is_space s"
  have u: "trim s = rev (dropWhile is_space (rev t))" by (simp add: trim_def t_def)
  with False have ne: "dropWhile is_space (rev t) \<noteq> []" by simp
  then have tne: "t \<noteq> []" by auto
  have l: "\<not> is_space (last (trim s))"
    using ne by (simp add: u last_rev hd_dropWhile)
  have "hd (trim s) = last (dropWhile is_space (rev t))" using ne by (simp add: u hd_rev)
  also have "\<dots> = last (rev t)"
  proof -
    have "rev t = takeWhile is_space (rev t) @ dropWhile is_space (rev t)" by simp
    then have "last (rev t) = last (takeWhile is_space (rev t) @ dropWhile is_space (rev t))"
      by simp
    also have "\<dots> = last (dropWhile is_space (rev t))" using ne by (simp only: last_append if_False)
    finally show ?thesis by simp
  qed
  also have "\<dots> = hd t" using tne by (simp add: last_rev)
  finally have "hd (trim s) = hd t" .
  moreover have "\<not> is_space (hd t)" using tne unfolding t_def by (rule hd_dropWhile)
  ultimately show ?thesis using l by simp
qed

lemma trim_fixed:
  "u = [] \<or> (\<not> is_space (hd u) \<and> \<not> is_space (last u)) \<Longrightarrow> trim u = u"
proof (cases u)
  case Nil
  then show ?thesis by (simp add: trim_def)
next
  case (Cons c cs)
  assume "u = [] \<or> (\<not> is_space (hd u) \<and> \<not> is_space (last u))"
  with Cons have h: "\<not> is_space c" and l: "\<not> is_space (last u)" by auto
  from h Cons have d: "dropWhile is_space u = u" by simp
  have "rev u \<noteq> []" using Cons by simp
  then obtain d ds where r: "rev u = d # ds" by (cases "rev u") auto
  then have "d = last u" using Cons by (metis list.sel(1) hd_rev)
  with l have "dropWhile is_space (d # ds) = d # ds" by simp
  then have "dropWhile is_space (rev u) = rev u" by (simp only: r)
  with d show ?thesis by (simp add: trim_def)
qed

lemma trim_idem: "trim (trim s) = trim s"
  by (rule trim_fixed) (rule trim_ends)

lemma trim_consolidate_fixed:
  "trim (consolidate (trim (consolidate z))) = trim (consolidate z)"
  by (simp add: consolidate_trim consolidate_idem trim_idem)

lemma replace_g_no_match:
  "(\<And>c cs. c \<in> set s \<Longrightarrow> m (c # cs) = None) \<Longrightarrow> replace_g m rep s = s"
  by (induction s) simp_all

lemma fold_fixed: "(\<And>x. x \<in> set xs \<Longrightarrow> f x s = s) \<Longrightarrow> fold f xs s = s"
  by (induction xs) simp_all

lemma open_tag_re_other: "c \<noteq> CHR ''<'' \<Longrightarrow> open_tag_re n (c # cs) = None"
  by (simp add: open_tag_re_def)

lemma close_tag_re_other: "c \<noteq> CHR ''<'' \<Longrightarrow> close_tag_re n (c # cs) = None"
  by (simp add: close_tag_re_def)

lemma tool_block_re_other: "c \<noteq> CHR ''<'' \<Longrightarrow> tool_block_re n (c # cs) = None"
  by (simp add: tool_block_re_def open_tag_re_other)

lemma block_re_other: "c \<noteq> o1 \<Longrightarrow> block_re (o1 # opn) cls (c # cs) = None"
  by (simp add: block_re_def)

lemma strip_markup_plain:
  assumes lt: "CHR ''<'' \<notin> set y"
    and rc: "\<not> includes_str y ''[Recalled Memories]''"
  shows "strip_markup y = y"
proof -
  have other: "\<And>c. c \<in> set y \<Longrightarrow> c \<noteq> CHR ''<''" using lt by auto
  have 0: "remove_environment y = y"
    unfolding remove_environment_def
    by (rule replace_g_no_match) (simp add: block_re_other other)
  have 1: "remove_recalled y = y"
    unfolding remove_recalled_def using rc by (rule replace_g_block_absent)
  have 2: "remove_diff y = y"
    unfolding remove_diff_def
    by (rule replace_g_no_match) (simp add: block_re_other other)
  have 3: "remove_block_tools y = y"
    unfolding remove_block_tools_def
    by (rule fold_fixed, rule replace_g_no_match) (simp add: tool_block_re_other other)
  have 4: "remove_self_closing y = y"
    unfolding remove_self_closing_def
    by (rule replace_g_no_match) (simp add: other)
  have o: "\<And>n. replace_g (open_tag_re n) [] y = y"
    by (rule replace_g_no_match) (simp add: open_tag_re_other other)
  have c: "\<And>n. replace_g (close_tag_re n) [] y = y"
    by (rule replace_g_no_match) (simp add: close_tag_re_other other)
  have 5: "remove_tool_tags y = y"
    unfolding remove_tool_tags_def by (rule fold_fixed) (simp add: o c)
  have 6: "remove_any_tag y = y"
    unfolding remove_any_tag_def
    by (rule replace_g_no_match) (simp add: other)
  show ?thesis by (simp add: strip_markup_def 0 1 2 3 4 5 6)
qed

text \<open>
  C1, as amended. When the cleaned text of an input holds no \<open><\<close> and no
  \<open>[Recalled Memories]\<close>, cleaning it again gives the same text.
\<close>

theorem sanitizer_idempotent_on_plain_output:
  assumes "CHR ''<'' \<notin> set (cleanMessageContent x)"
    and "\<not> includes_str (cleanMessageContent x) ''[Recalled Memories]''"
  shows "cleanMessageContent (cleanMessageContent x) = cleanMessageContent x"
proof (cases "x = []")
  case True
  then show ?thesis by (simp add: cleanMessageContent_def)
next
  case False
  then have y: "cleanMessageContent x = trim (consolidate (strip_markup x))"
    by (simp add: cleanMessageContent_def)
  from assms have "strip_markup (cleanMessageContent x) = cleanMessageContent x"
    by (rule strip_markup_plain)
  then have "cleanMessageContent (cleanMessageContent x)
      = (if cleanMessageContent x = [] then []
         else trim (consolidate (cleanMessageContent x)))"
    by (simp add: cleanMessageContent_def [of "cleanMessageContent x"])
  also have "trim (consolidate (cleanMessageContent x)) = cleanMessageContent x"
    unfolding y by (rule trim_consolidate_fixed)
  finally show ?thesis by simp
qed

lemma example_clean:
  "cleanMessageContent
     (''a'' @ [nl] @ '' '' @ [nl, nl] @ ''  b <read_file><path>x.ts</path></read_file> <foo/> c'')
   = ''a'' @ [nl, nl] @ ''  b x.ts  c''"
  "\<not> includes_str (''a'' @ [nl, nl] @ ''  b x.ts  c'') ''[Recalled Memories]''"
  by code_simp+

theorem sanitizer_idempotent_on_plain_output_witness:
  "cleanMessageContent
     (''a'' @ [nl] @ '' '' @ [nl, nl] @ ''  b <read_file><path>x.ts</path></read_file> <foo/> c'')
   = ''a'' @ [nl, nl] @ ''  b x.ts  c''
   \<and> cleanMessageContent (''a'' @ [nl, nl] @ ''  b x.ts  c'') = ''a'' @ [nl, nl] @ ''  b x.ts  c''"
proof -
  have lt: "CHR ''<'' \<notin> set (''a'' @ [nl, nl] @ ''  b x.ts  c'')" by (simp add: nl_def)
  from sanitizer_idempotent_on_plain_output
         [of "''a'' @ [nl] @ '' '' @ [nl, nl] @ ''  b <read_file><path>x.ts</path></read_file> <foo/> c''",
          unfolded example_clean(1), OF lt example_clean(2)]
    example_clean(1)
  show ?thesis by simp
qed

theorem sanitizer_idempotent_counterexample:
  "cleanMessageContent ''<<b>b>'' = ''<b>''
   \<and> cleanMessageContent (cleanMessageContent ''<<b>b>'') = []
   \<and> cleanMessageContent (cleanMessageContent ''<<b>b>'') \<noteq> cleanMessageContent ''<<b>b>''"
  by code_simp

section \<open>The recall block in what is stored\<close>

lemma replace_g_block_no_cross:
  "skip_to opn a = None \<Longrightarrow> c \<notin> set opn \<Longrightarrow>
   replace_g (block_re opn cls) rep (a @ c # b) = a @ replace_g (block_re opn cls) rep (c # b)"
proof (induction a)
  case Nil
  then show ?case by simp
next
  case (Cons d a)
  from Cons.prems(1) have n: "strip_prefix opn (d # a) = None" and r: "skip_to opn a = None"
    by (auto split: option.splits)
  from strip_prefix_None_append [OF n Cons.prems(2), of b]
  have "block_re opn cls (d # a @ c # b) = None" by (simp add: block_re_def)
  with Cons.IH [OF r Cons.prems(2)] show ?case by simp
qed

lemma replace_g_keep_head: "m (c # z) = None \<Longrightarrow> replace_g m rep (c # z) = c # replace_g m rep z"
  by simp

lemma fold_keep_head:
  "(\<And>x z. f x (c # z) = c # f x z) \<Longrightarrow> fold f xs (c # z) = c # fold f xs z"
  by (induction xs arbitrary: z) simp_all

lemma strip_markup_Nil: "strip_markup [] = []"
  by code_simp

lemma environment_before_rest:
  assumes "\<not> includes_str f ''<environment_details>''"
  shows "remove_environment (recall_block_text f @ nl # nl # rest)
           = recall_block_text f @ nl # nl # remove_environment rest"
proof -
  from assms have n: "skip_to ''<environment_details>'' f = None" by (simp add: includes_str_def)
  have nin: "nl \<notin> set ''<environment_details>''" by (simp add: nl_def)
  from skip_to_no_cross [OF n nin, of "''[/Recalled Memories]'' @ [nl]"]
  have "skip_to ''<environment_details>'' (f @ nl # ''[/Recalled Memories]'' @ [nl]) = None"
    by (simp add: nl_def)
  then have a: "skip_to ''<environment_details>'' (recall_block_text f @ [nl]) = None"
    by (simp add: recall_block_text_def nl_def)
  have "remove_environment ((recall_block_text f @ [nl]) @ nl # rest)
          = (recall_block_text f @ [nl]) @ remove_environment (nl # rest)"
    unfolding remove_environment_def by (rule replace_g_block_no_cross [OF a nin])
  moreover have "remove_environment (nl # rest) = nl # remove_environment rest"
    unfolding remove_environment_def by (rule replace_g_keep_head) (simp add: block_re_def nl_def)
  ultimately show ?thesis by simp
qed

lemma recalled_before_rest:
  assumes "\<not> includes_str f ''[/Recalled Memories]''"
  shows "remove_recalled (recall_block_text f @ nl # nl # rest) = nl # remove_recalled rest"
proof -
  from assms have n: "skip_to ''[/Recalled Memories]'' f = None" by (simp add: includes_str_def)
  have nin: "nl \<notin> set ''[/Recalled Memories]''" by (simp add: nl_def)
  have tail: "skip_to ''[/Recalled Memories]'' (nl # ''[/Recalled Memories]'' @ nl # nl # rest)
                = Some (nl # nl # rest)"
    by (simp add: nl_def)
  from skip_to_no_cross [OF n nin, of "''[/Recalled Memories]'' @ nl # nl # rest"] tail
  have "skip_to ''[/Recalled Memories]'' (f @ nl # ''[/Recalled Memories]'' @ nl # nl # rest)
          = Some (nl # nl # rest)" by simp
  then have "skip_to ''[/Recalled Memories]''
               (nl # f @ nl # ''[/Recalled Memories]'' @ nl # nl # rest) = Some (nl # nl # rest)"
    by (simp add: nl_def)
  then have m: "block_re ''[Recalled Memories]'' ''[/Recalled Memories]''
      (''[Recalled Memories]'' @ nl # f @ nl # ''[/Recalled Memories]'' @ nl # nl # rest)
        = Some (nl # rest)"
    unfolding block_re_def strip_prefix_append by simp
  have k: "replace_g (block_re ''[Recalled Memories]'' ''[/Recalled Memories]'') [] (nl # rest)
             = nl # replace_g (block_re ''[Recalled Memories]'' ''[/Recalled Memories]'') [] rest"
    by (rule replace_g_keep_head) (simp add: block_re_def nl_def)
  from m k show ?thesis
    by (simp add: remove_recalled_def recall_block_text_def)
qed

lemma strip_markup_keep_nl:
  "remove_any_tag (remove_tool_tags (remove_self_closing (remove_block_tools (remove_diff (nl # z)))))
     = nl # remove_any_tag (remove_tool_tags (remove_self_closing (remove_block_tools (remove_diff z))))"
proof -
  have 2: "\<And>z. remove_diff (nl # z) = nl # remove_diff z"
    unfolding remove_diff_def by (rule replace_g_keep_head) (simp add: block_re_def nl_def)
  have 3: "\<And>z. remove_block_tools (nl # z) = nl # remove_block_tools z"
    unfolding remove_block_tools_def
    by (rule fold_keep_head, rule replace_g_keep_head)
       (simp add: tool_block_re_def open_tag_re_def nl_def)
  have 4: "\<And>z. remove_self_closing (nl # z) = nl # remove_self_closing z"
    unfolding remove_self_closing_def by (rule replace_g_keep_head) (simp add: nl_def)
  have 5: "\<And>z. remove_tool_tags (nl # z) = nl # remove_tool_tags z"
    unfolding remove_tool_tags_def
    by (rule fold_keep_head) (simp add: open_tag_re_def close_tag_re_def nl_def)
  have 6: "\<And>z. remove_any_tag (nl # z) = nl # remove_any_tag z"
    unfolding remove_any_tag_def by (rule replace_g_keep_head) (simp add: nl_def)
  show ?thesis by (simp add: 2 3 4 5 6)
qed

lemma trim_consolidate_nl: "trim (consolidate (nl # z)) = trim (consolidate z)"
proof -
  have "dropWhile is_space (consolidate (nl # z)) = consolidate (dropWhile is_space (nl # z))"
    by (rule consolidate_dropWhile [symmetric])
  also have "\<dots> = consolidate (dropWhile is_space z)" by simp
  also have "\<dots> = dropWhile is_space (consolidate z)" by (rule consolidate_dropWhile)
  finally show ?thesis by (simp add: trim_def)
qed

text \<open>
  Joined to the text behind it as the text blocks of a message are joined, such a block
  leaves nothing in the cleaned text.
\<close>

lemma recall_block_cleaned_before_text:
  assumes "\<not> includes_str formatted ''[/Recalled Memories]''"
    and "\<not> includes_str formatted ''<environment_details>''"
  shows "cleanMessageContent (recall_block_text formatted @ [nl, nl] @ rest)
           = cleanMessageContent rest"
proof -
  have ne: "recall_block_text formatted @ [nl, nl] @ rest \<noteq> []" by simp
  have "strip_markup (recall_block_text formatted @ nl # nl # rest) = nl # strip_markup rest"
    by (simp add: strip_markup_def environment_before_rest [OF assms(2)]
        recalled_before_rest [OF assms(1)] strip_markup_keep_nl)
  then have "cleanMessageContent (recall_block_text formatted @ [nl, nl] @ rest)
      = trim (consolidate (strip_markup rest))"
    using ne by (simp add: cleanMessageContent_def trim_consolidate_nl)
  also have "\<dots> = cleanMessageContent rest"
    by (cases "rest = []") (simp_all add: cleanMessageContent_def strip_markup_Nil trim_def)
  finally show ?thesis .
qed

text \<open>
  So \<open>storeExchangeInternal\<close> of \<open>src/integrations/SemanticMemoryIntegration.ts\<close> stores the
  same for a user message with such a block in front as for the message without it.
\<close>

lemma join_Cons: "join sep (x # xs) = (if xs = [] then x else x @ sep @ join sep xs)"
  by (cases xs) simp_all

lemma store_ignores_recall_block:
  assumes "\<not> includes_str formatted ''[/Recalled Memories]''"
    and "\<not> includes_str formatted ''<environment_details>''"
    and "content um = Blocks (TextBlock (recall_block_text formatted) # bs)"
  shows "storeExchangeInternal hub um am tid s
           = storeExchangeInternal hub (um\<lparr>content := Blocks bs\<rparr>) am tid s"
proof -
  have "cleanMessageContent (text_of_content [nl, nl] (content um))
          = cleanMessageContent (text_of_content [nl, nl] (Blocks bs))"
  proof (cases "map block_text (filter is_text bs) = []")
    case True
    with assms(3) have "text_of_content [nl, nl] (content um) = recall_block_text formatted"
      and "text_of_content [nl, nl] (Blocks bs) = []"
      by (simp_all add: join_Cons)
    moreover have "cleanMessageContent [] = []" by (simp add: cleanMessageContent_def)
    ultimately show ?thesis by (simp only: recall_block_cleaned [OF assms(1,2)])
  next
    case False
    with assms(3) recall_block_cleaned_before_text [OF assms(1,2),
        of "join [nl, nl] (map block_text (filter is_text bs))"]
    show ?thesis by (simp add: join_Cons)
  qed
  then show ?thesis by (simp add: storeExchangeInternal_def Let_def)
qed

text \<open>
  C2. A recall block does reach the stored text. The sanitizer removes from the opening
  marker up to the first closing marker, and the items are formatted as they are: an item
  whose text holds \<open>[/Recalled Memories]\<close> leaves the rest of the block behind, in the
  cleaned block and in what \<open>storeExchangeInternal\<close> sends. And the
  \<open>storeExchangeInternal\<close> of the revision with \<open>syncHistory\<close> does not clean the user's
  text: it sends the whole block of any item.
\<close>

theorem recall_block_reaches_the_store:
  "cleanMessageContent (recall_block_text (format_memory example_toFixed4 0 leaking_item))
     = ''leaked text'' @ [nl] @ ''[/Recalled Memories]''
   \<and> calls (storeExchangeInternal (example_hub connected_registry (Json True None))
        (enriched_message leaking_item) (assistant_says ''Assistant answer'')
        ''test-task-123'' fresh)
     = [CallTool ''semantic-memory'' ''store_exchange''
          (StoreExchangeMcpPayload
             (''leaked text'' @ [nl] @ ''[/Recalled Memories]'' @ [nl, nl] @ ''Original user query'')
             ''Assistant answer'' ''test-task-123'' None None)]
   \<and> calls (storeExchangeInternal_sync (example_hub connected_registry (Json True None))
        (enriched_message example_item) (assistant_says ''Assistant answer'')
        ''test-task-123'' fresh)
     = [CallTool ''semantic-memory'' ''store_exchange''
          (StoreExchangeMcpPayload
             (''[Recalled Memories]'' @ [nl] @ ''Memory 1 (Source: mem1, Score: 0.8000):'' @ [nl]
                @ ''Recalled context'' @ [nl] @ ''[/Recalled Memories]'' @ [nl, nl]
                @ ''Original user query'')
             ''Assistant answer'' ''test-task-123'' None None)]"
  by code_simp

end
